theory Spec2Isabelle
  imports Complex_Main "HOL-Library.Word" "HOL-Library.Signed_Division" "HOL-Library.Log_Nat"
begin

unbundle bit_operations_syntax

section \<open>JavaScript values used by the server\<close>

text \<open>
  A JavaScript string is a sequence of UTF-16 code units; \<open>charCodeAt\<close> reads one of
  them as a number between 0 and 65535.  ASCII literals are injected with \<open>utf16\<close>.
\<close>

type_synonym js_string = "16 word list"

definition utf16 :: "string \<Rightarrow> js_string" where
  "utf16 s = map (\<lambda>c. of_nat (of_char c)) s"

text \<open>
  Numbers that stay integral are modelled as \<open>int\<close>.  The 32-bit operators first apply
  ToInt32 to their operands (\<open>word_of_int\<close> into \<open>32 word\<close>) and give back a signed
  32-bit result (\<open>sint\<close>); \<open>-\<close> and \<open>+\<close> work on the numbers themselves.
\<close>

definition js_shl :: "int \<Rightarrow> nat \<Rightarrow> int" where
  "js_shl x n = sint (push_bit (n mod 32) (word_of_int x :: 32 word))"

definition js_bitand :: "int \<Rightarrow> int \<Rightarrow> int" where
  "js_bitand x y = sint ((word_of_int x :: 32 word) AND word_of_int y)"

text \<open>Reading an array out of range gives \<open>undefined\<close>, here \<open>None\<close>.\<close>

definition js_index :: "'a list \<Rightarrow> int \<Rightarrow> 'a option" where
  "js_index xs i = (if 0 \<le> i \<and> i < int (length xs) then Some (xs ! nat i) else None)"

section \<open>The deterministic sequence generator\<close>

subsection \<open>hashCode\<close>

text \<open>
  \<^verbatim>\<open>for (i = 0; i < str.length; i++) { char = str.charCodeAt(i);
       hash = ((hash << 5) - hash) + char; hash = hash & hash; }\<close>
\<close>

fun hash_loop :: "int \<Rightarrow> js_string \<Rightarrow> int" where
  "hash_loop hash [] = hash"
| "hash_loop hash (c # cs) =
     (let char = uint c;
          hash1 = (js_shl hash 5 - hash) + char;
          hash2 = js_bitand hash1 hash1
      in hash_loop hash2 cs)"

definition hashCode :: "js_string \<Rightarrow> int" where
  "hashCode str = \<bar>hash_loop 0 str\<bar>"

subsection \<open>seededRandom\<close>

text \<open>
  The closure returned by \<open>seededRandom\<close> owns one variable, \<open>state\<close>.  A call of the
  closure is a function from the state before to the value returned and the state after.
  \<open>%\<close> is the remainder of truncating division, \<open>smod\<close>.
\<close>

definition lcg :: "int \<Rightarrow> int" where
  "lcg state = (state * 1664525 + 1013904223) smod 4294967296"

definition rng :: "int \<Rightarrow> rat \<times> int" where
  "rng state = (let state' = lcg state in (of_int state' / 4294967296, state'))"

subsection \<open>generateDailyCode\<close>

definition numbers :: "int list" where
  "numbers = [1, 2, 3, 4, 5, 6]"

definition availableNumbers :: "bool \<Rightarrow> int option list \<Rightarrow> int list" where
  "availableNumbers allowDuplicates code =
     (if allowDuplicates then numbers else filter (\<lambda>n. Some n \<notin> set code) numbers)"

text \<open>One pass through the body of the loop, on the pair of the closure's state and \<open>code\<close>.\<close>

definition draw :: "bool \<Rightarrow> int \<times> int option list \<Rightarrow> int \<times> int option list" where
  "draw allowDuplicates sc =
     (let (state, code) = sc;
          avail = availableNumbers allowDuplicates code;
          (r, state') = rng state;
          randomIndex = \<lfloor>r * of_nat (length avail)\<rfloor>
      in (state', code @ [js_index avail randomIndex]))"

function gen_loop :: "nat \<Rightarrow> bool \<Rightarrow> int \<times> int option list \<Rightarrow> int option list" where
  "gen_loop i allowDuplicates sc =
     (if i < 4 then gen_loop (i + 1) allowDuplicates (draw allowDuplicates sc) else snd sc)"
  by pat_completeness auto
termination
  by (relation "measure (\<lambda>(i, _, _). 4 - i)") auto

declare gen_loop.simps [simp del]

definition generateDailyCode :: "js_string \<Rightarrow> bool \<Rightarrow> int option list" where
  "generateDailyCode dateString allowDuplicates =
     gen_loop 0 allowDuplicates (hashCode dateString, [])"


text \<open>
  The accumulation as the specification words it: \<open>hash = hash*31 + charCode\<close>,
  folded to a signed 32-bit value at every step, with the wrap-around written out.
\<close>

definition wrap32 :: "int \<Rightarrow> int" where
  "wrap32 x = (x + 2147483648) mod 4294967296 - 2147483648"

fun spec_hash :: "int \<Rightarrow> js_string \<Rightarrow> int" where
  "spec_hash hash [] = hash"
| "spec_hash hash (c # cs) = spec_hash (wrap32 (hash * 31 + uint c)) cs"

text \<open>
  What holds of the closure's state and of \<open>code\<close> when the loop has run \<open>k\<close> times.
\<close>

definition draw_ok :: "bool \<Rightarrow> nat \<Rightarrow> int \<times> int option list \<Rightarrow> bool" where
  "draw_ok allowDuplicates k sc =
     (case sc of (state, code) \<Rightarrow>
        0 \<le> state \<and> state < 4294967296 \<and> length code = k \<and>
        set code \<subseteq> Some ` set numbers \<and> (\<not> allowDuplicates \<longrightarrow> distinct code))"

section \<open>The documents of the store\<close>

text \<open>
  Numbers that come from the request body (\<open>guesses\<close>, \<open>time\<close>) and the numbers
  computed from them are rationals.  The sums and the quotient of the statistics are
  exact; the score of line 330 is rounded to a double at every operation.  Counters that
  only ever grow from their default 0 by \<open>++\<close> are naturals.  A field that may be
  \<open>undefined\<close> or \<open>null\<close> is an \<open>option\<close>.
\<close>

record dailyPuzzle =
  date :: js_string
  solution :: "int option list"
  totalPlayers :: nat
  completedPlayers :: nat
  puzzleFastestTime :: "rat option"
  fastestPlayer :: "js_string option"
  averageGuesses :: rat
  puzzleTotalGuesses :: rat

record playerStats =
  gamesPlayed :: nat
  gamesWon :: nat
  currentStreak :: nat
  maxStreak :: nat
  totalGuesses :: rat
  lastPlayDate :: "js_string option"
  fastestTime :: "rat option"

record game =
  gameDate :: js_string
  won :: bool
  guesses :: rat
  time :: rat
  attempts :: "rat list list"

record player =
  playerId :: js_string
  email :: "js_string option"
  username :: "js_string option"
  passwordHash :: "js_string option"
  stats :: playerStats
  games :: "game list"

record entry =
  entryPlayerId :: js_string
  entryUsername :: js_string
  score :: rat
  entryTime :: rat
  entryGuesses :: rat

datatype boardType = Daily | Weekly | Alltime

text \<open>
  The three collections.  \<open>findOne\<close> by the key of a collection is a lookup in a map,
  \<open>save\<close> an update of it.
\<close>

record db =
  puzzles :: "js_string \<rightharpoonup> dailyPuzzle"
  players :: "js_string \<rightharpoonup> player"
  leaderboards :: "js_string \<times> boardType \<rightharpoonup> entry list"

text \<open>The schema defaults: \<open>new DailyPuzzle({date, solution})\<close> and \<open>new Player({playerId})\<close>.\<close>

definition newDailyPuzzle :: "js_string \<Rightarrow> int option list \<Rightarrow> dailyPuzzle" where
  "newDailyPuzzle d sol =
     \<lparr>date = d, solution = sol, totalPlayers = 0, completedPlayers = 0,
      puzzleFastestTime = None, fastestPlayer = None, averageGuesses = 0,
      puzzleTotalGuesses = 0\<rparr>"

definition newPlayer :: "js_string \<Rightarrow> player" where
  "newPlayer pid =
     \<lparr>playerId = pid, email = None, username = None, passwordHash = None,
      stats = \<lparr>gamesPlayed = 0, gamesWon = 0, currentStreak = 0, maxStreak = 0,
               totalGuesses = 0, lastPlayDate = None, fastestTime = None\<rparr>,
      games = []\<rparr>"

text \<open>
  \<open>s || t\<close> on an optional string: \<open>t\<close> for \<open>undefined\<close> and for the empty string.
\<close>

definition orElse :: "js_string option \<Rightarrow> js_string \<Rightarrow> js_string" where
  "orElse s t = (case s of None \<Rightarrow> t | Some v \<Rightarrow> if v = [] then t else v)"

section \<open>GET /api/puzzle/today\<close>

record puzzleView =
  viewDate :: js_string
  viewTotalPlayers :: nat
  viewCompletedPlayers :: nat
  viewFastestTime :: "rat option"
  viewAverageGuesses :: rat

definition puzzleView :: "dailyPuzzle \<Rightarrow> puzzleView" where
  "puzzleView puzzle =
     \<lparr>viewDate = date puzzle, viewTotalPlayers = totalPlayers puzzle,
      viewCompletedPlayers = completedPlayers puzzle,
      viewFastestTime = puzzleFastestTime puzzle,
      viewAverageGuesses = averageGuesses puzzle\<rparr>"

text \<open>
  \<open>today\<close> is the ISO date the handler reads off the clock, \<open>duplicates\<close> the test
  \<open>req.query.duplicates === 'true'\<close>.
\<close>

definition puzzleToday :: "db \<Rightarrow> js_string \<Rightarrow> bool \<Rightarrow> puzzleView \<times> db" where
  "puzzleToday store today duplicates =
     (case puzzles store today of
        Some puzzle \<Rightarrow> (puzzleView puzzle, store)
      | None \<Rightarrow>
          (let sol = generateDailyCode today duplicates;
               puzzle = newDailyPuzzle today sol
           in (puzzleView puzzle, store\<lparr>puzzles := (puzzles store)(today \<mapsto> puzzle)\<rparr>)))"

section \<open>updateLeaderboards\<close>

text \<open>
  The numbers of line 330 are IEEE-754 doubles: each of \<open>*\<close>, \<open>/\<close> and the two \<open>-\<close>
  returns the double nearest to the exact result, a tie going to the double whose
  significand is even.  Finite doubles are rationals, and \<open>toDouble\<close> is that rounding:
  \<open>expo x\<close> is the binary exponent of a positive \<open>x\<close>, the \<open>e\<close> with
  \<open>2^e \<le> x < 2^(e+1)\<close>; \<open>ulp x\<close> is the distance between the doubles around \<open>x\<close>,
  \<open>2^(e-52)\<close>, and \<open>2^-1074\<close> in the subnormal range; \<open>roundEven\<close> rounds to the
  nearest integer, a tie to the even one.  The rounding has no overflow: where a result
  has magnitude \<open>2^1024\<close> or more the code computes with \<open>Infinity\<close>, which is no
  value here.
\<close>

definition expo :: "rat \<Rightarrow> int" where
  "expo x =
     (let (a, b) = quotient_of x;
          k = bitlen a - bitlen b
      in if 2 powi k \<le> x then k else k - 1)"

definition roundEven :: "rat \<Rightarrow> int" where
  "roundEven q =
     (let n = \<lfloor>q\<rfloor>; r = q - of_int n
      in if r < 1 / 2 then n else if 1 / 2 < r then n + 1 else if even n then n else n + 1)"

definition ulp :: "rat \<Rightarrow> rat" where
  "ulp x = 2 powi (max (expo \<bar>x\<bar>) (- 1022) - 52)"

definition toDouble :: "rat \<Rightarrow> rat" where
  "toDouble x =
     (if x = 0 then 0
      else sgn x * (of_int (roundEven (\<bar>x\<bar> / ulp x)) * ulp x))"

text \<open>Line 330: \<open>1000 - (guesses * 100) - (time / 10)\<close>, each operation rounded.\<close>

definition scoreOf :: "rat \<Rightarrow> rat \<Rightarrow> rat" where
  "scoreOf g t = toDouble (toDouble (1000 - toDouble (g * 100)) - toDouble (t / 10))"

text \<open>
  \<open>entries.sort((a, b) => b.score - a.score)\<close> is a stable sort by descending score:
  the stable insertion sort of the library on the negated score.
\<close>

definition sortByScore :: "entry list \<Rightarrow> entry list" where
  "sortByScore es = sort_key (\<lambda>e. - score e) es"

definition updateLeaderboards ::
  "db \<Rightarrow> js_string \<Rightarrow> player \<Rightarrow> bool \<Rightarrow> rat \<Rightarrow> rat \<Rightarrow> db" where
  "updateLeaderboards store d player w g t =
     (if \<not> w then store
      else
        (let dailyBoard = (case leaderboards store (d, Daily) of
                             Some es \<Rightarrow> es | None \<Rightarrow> []);
             pushed = dailyBoard @
               [\<lparr>entryPlayerId = playerId player,
                 entryUsername = orElse (username player) (utf16 ''Anonymous''),
                 score = scoreOf g t, entryTime = t, entryGuesses = g\<rparr>];
             entries = take 100 (sortByScore pushed)
         in store\<lparr>leaderboards := (leaderboards store)((d, Daily) \<mapsto> entries)\<rparr>))"

section \<open>POST /api/game/submit\<close>

record submission =
  reqPlayerId :: js_string
  reqDate :: js_string
  reqWon :: bool
  reqGuesses :: rat
  reqTime :: rat
  reqAttempts :: "rat list list"

record todayStats =
  todayTotalPlayers :: nat
  todayCompletedPlayers :: nat
  todayFastestTime :: "rat option"
  todayAverageGuesses :: rat

text \<open>
  The three ways the handler answers: the JSON of a success (status 200), the
  early return \<open>res.status(400).json({error: 'Already played today'})\<close>, and the
  \<open>catch\<close> block's status 500 for an exception thrown in the \<open>try\<close>: the
  RangeError of \<open>toISOString\<close> on an invalid date, the ValidationError of
  \<open>player.save()\<close>, the TypeError of reading a property of \<open>null\<close>.
\<close>

datatype jsError = TypeError | RangeError | ValidationError

datatype response = Success playerStats todayStats | AlreadyPlayed | InternalError jsError

fun statusCode :: "response \<Rightarrow> nat" where
  "statusCode (Success _ _) = 200"
| "statusCode AlreadyPlayed = 400"
| "statusCode (InternalError _) = 500"

text \<open>
  \<open>!fastest || t < fastest\<close> on an optional number: \<open>!\<close> is true for \<open>undefined\<close>,
  \<open>null\<close> and \<open>0\<close>.
\<close>

definition unsetOrSlower :: "rat option \<Rightarrow> rat \<Rightarrow> bool" where
  "unsetOrSlower fastest t = (case fastest of None \<Rightarrow> True | Some v \<Rightarrow> v = 0 \<or> t < v)"

text \<open>
  Lines 187 to 212, on the player's \<open>stats\<close>.  \<open>yesterdayOf\<close> stands for lines 193 to
  195, \<open>new Date(date)\<close>, \<open>setDate(getDate() - 1)\<close> and \<open>toISOString().split('T')[0]\<close>,
  as a function of the date string; it is \<open>None\<close> where \<open>toISOString\<close> throws its
  RangeError on an invalid date, which leaves the \<open>try\<close> block.
\<close>

definition updateStats ::
  "(js_string \<Rightarrow> js_string option) \<Rightarrow> playerStats \<Rightarrow> submission \<Rightarrow> playerStats option" where
  "updateStats yesterdayOf st req =
     (let st1 = st\<lparr>gamesPlayed := gamesPlayed st + 1\<rparr> in
      if reqWon req then
        (let st2 = st1\<lparr>gamesWon := gamesWon st1 + 1\<rparr>;
             st3 = st2\<lparr>totalGuesses := totalGuesses st2 + reqGuesses req\<rparr>
         in case yesterdayOf (reqDate req) of
              None \<Rightarrow> None
            | Some yesterdayString \<Rightarrow>
                (let st4 = (if lastPlayDate st3 = Some yesterdayString
                            then st3\<lparr>currentStreak := currentStreak st3 + 1\<rparr>
                            else st3\<lparr>currentStreak := 1\<rparr>);
                     st5 = st4\<lparr>maxStreak := max (maxStreak st4) (currentStreak st4)\<rparr>;
                     st6 = (if unsetOrSlower (fastestTime st5) (reqTime req)
                            then st5\<lparr>fastestTime := Some (reqTime req)\<rparr> else st5)
                 in Some (st6\<lparr>lastPlayDate := Some (reqDate req)\<rparr>)))
      else
        (let st2 = st1\<lparr>currentStreak := 0\<rparr>
         in Some (st2\<lparr>lastPlayDate := Some (reqDate req)\<rparr>)))"

text \<open>Lines 228 to 238, on the puzzle found for the date.\<close>

definition updatePuzzle :: "dailyPuzzle \<Rightarrow> player \<Rightarrow> submission \<Rightarrow> dailyPuzzle" where
  "updatePuzzle puzzle p req =
     (let p1 = puzzle\<lparr>totalPlayers := totalPlayers puzzle + 1\<rparr> in
      if reqWon req then
        (let p2 = p1\<lparr>completedPlayers := completedPlayers p1 + 1\<rparr>;
             p3 = p2\<lparr>puzzleTotalGuesses := puzzleTotalGuesses p2 + reqGuesses req\<rparr>;
             p4 = p3\<lparr>averageGuesses :=
                       puzzleTotalGuesses p3 / of_nat (completedPlayers p3)\<rparr>
         in if unsetOrSlower (puzzleFastestTime p4) (reqTime req)
            then p4\<lparr>puzzleFastestTime := Some (reqTime req),
                    fastestPlayer := Some (orElse (username p) (reqPlayerId req))\<rparr>
            else p4)
      else p1)"

definition todayStatsOf :: "dailyPuzzle \<Rightarrow> todayStats" where
  "todayStatsOf puzzle =
     \<lparr>todayTotalPlayers = totalPlayers puzzle,
      todayCompletedPlayers = completedPlayers puzzle,
      todayFastestTime = puzzleFastestTime puzzle,
      todayAverageGuesses = averageGuesses puzzle\<rparr>"

text \<open>Lines 175 to 178: the player found, or a new one that is not yet saved.\<close>

definition playerOf :: "db \<Rightarrow> js_string \<Rightarrow> player" where
  "playerOf store pid =
     (case players store pid of Some found \<Rightarrow> found | None \<Rightarrow> newPlayer pid)"

text \<open>Lines 215 to 221: the entry pushed on the player's history.\<close>

definition gameOf :: "submission \<Rightarrow> game" where
  "gameOf req =
     \<lparr>gameDate = reqDate req, won = reqWon req, guesses = reqGuesses req,
      time = reqTime req, attempts = reqAttempts req\<rparr>"

text \<open>
  The handler, from the store before to the response and the store after.

  \<open>player.save()\<close> (line 223) validates the document before it writes it: the schema
  requires \<open>playerId\<close> (line 34), and the required validator of a string path
  rejects the empty string, so for a player whose playerId is empty \<open>save\<close> throws a
  ValidationError and nothing is written.  The other paths of the player have no
  validator that a typed submission can fail.

  The player is saved before the puzzle is looked up (line 226); when there is no
  puzzle, the block guarded by \<open>if (puzzle)\<close> is skipped and building the response
  reads \<open>puzzle.totalPlayers\<close> of \<open>null\<close>, a TypeError.
\<close>

definition submit ::
  "(js_string \<Rightarrow> js_string option) \<Rightarrow> db \<Rightarrow> submission \<Rightarrow> response \<times> db" where
  "submit yesterdayOf store req =
     (let p = playerOf store (reqPlayerId req);
          existingGame = find (\<lambda>g. gameDate g = reqDate req) (games p)
      in if existingGame \<noteq> None then (AlreadyPlayed, store)
         else
           (case updateStats yesterdayOf (stats p) req of
              None \<Rightarrow> (InternalError RangeError, store)
            | Some st \<Rightarrow>
                (let p1 = p\<lparr>stats := st, games := games p @ [gameOf req]\<rparr>
                 in if playerId p1 = [] then (InternalError ValidationError, store)
                    else
                      (let store1 =
                             store\<lparr>players := (players store)(reqPlayerId req \<mapsto> p1)\<rparr>
                       in case puzzles store1 (reqDate req) of
                            None \<Rightarrow> (InternalError TypeError, store1)
                          | Some puzzle \<Rightarrow>
                              (let puzzle1 = updatePuzzle puzzle p1 req;
                                   store2 = store1\<lparr>puzzles :=
                                              (puzzles store1)(reqDate req \<mapsto> puzzle1)\<rparr>;
                                   store3 = updateLeaderboards store2 (reqDate req) p1
                                              (reqWon req) (reqGuesses req) (reqTime req)
                               in (Success st (todayStatsOf puzzle1), store3))))))"

text \<open>A sequence of submissions, each on the store the one before left.\<close>

fun submitAll :: "(js_string \<Rightarrow> js_string option) \<Rightarrow> db \<Rightarrow> submission list \<Rightarrow> db" where
  "submitAll yesterdayOf store [] = store"
| "submitAll yesterdayOf store (req # reqs) =
     submitAll yesterdayOf (snd (submit yesterdayOf store req)) reqs"

section \<open>Notions the properties are stated with\<close>

text \<open>The player already has a game for the date of the submission.\<close>

definition hasPlayed :: "db \<Rightarrow> submission \<Rightarrow> bool" where
  "hasPlayed store req =
     (\<exists>g \<in> set (games (playerOf store (reqPlayerId req))). gameDate g = reqDate req)"

text \<open>The current streak of a player after each submission of a sequence.\<close>

fun streakHistory ::
  "(js_string \<Rightarrow> js_string option) \<Rightarrow> db \<Rightarrow> js_string \<Rightarrow> submission list \<Rightarrow> nat list" where
  "streakHistory yesterdayOf store pid [] = []"
| "streakHistory yesterdayOf store pid (req # reqs) =
     currentStreak (stats (playerOf (snd (submit yesterdayOf store req)) pid)) #
     streakHistory yesterdayOf (snd (submit yesterdayOf store req)) pid reqs"

text \<open>Every board is in descending order of score and has at most 100 entries.\<close>

definition descending :: "entry list \<Rightarrow> bool" where
  "descending es = sorted_wrt (\<lambda>a b. score b \<le> score a) es"

definition boardsRanked :: "db \<Rightarrow> bool" where
  "boardsRanked store =
     (\<forall>key es. leaderboards store key = Some es \<longrightarrow> descending es \<and> length es \<le> 100)"

text \<open>Every entry of every board carries the score of its own guesses and time.\<close>

definition boardsScored :: "db \<Rightarrow> bool" where
  "boardsScored store =
     (\<forall>key es. leaderboards store key = Some es \<longrightarrow>
        (\<forall>e \<in> set es. score e = scoreOf (entryGuesses e) (entryTime e)))"



text \<open>The entries \<open>updateLeaderboards\<close> sorts: those of the daily board and the new one.\<close>

definition pushed :: "db \<Rightarrow> js_string \<Rightarrow> player \<Rightarrow> rat \<Rightarrow> rat \<Rightarrow> entry list" where
  "pushed store d p g t =
     (case leaderboards store (d, Daily) of Some es \<Rightarrow> es | None \<Rightarrow> []) @
     [\<lparr>entryPlayerId = playerId p,
       entryUsername = orElse (username p) (utf16 ''Anonymous''),
       score = scoreOf g t, entryTime = t, entryGuesses = g\<rparr>]"

text \<open>Stores and submissions the properties are evaluated on.\<close>

definition emptyStore :: db where
  "emptyStore = \<lparr>puzzles = Map.empty, players = Map.empty, leaderboards = Map.empty\<rparr>"

definition play :: "string \<Rightarrow> string \<Rightarrow> bool \<Rightarrow> rat \<Rightarrow> rat \<Rightarrow> submission" where
  "play pid d w g t =
     \<lparr>reqPlayerId = utf16 pid, reqDate = utf16 d, reqWon = w, reqGuesses = g,
      reqTime = t, reqAttempts = []\<rparr>"

text \<open>The store after the first \<open>GET /api/puzzle/today\<close> of 1 January 2024.\<close>

definition newYearStore :: db where
  "newYearStore = snd (puzzleToday emptyStore (utf16 ''2024-01-01'') False)"

text \<open>
  The store after the today handler has run on four days around the leap day of 2024.
\<close>

definition leapWeekStore :: db where
  "leapWeekStore =
     fold (\<lambda>d store. snd (puzzleToday store (utf16 d) False))
       [''2024-02-28'', ''2024-02-29'', ''2024-03-01'', ''2024-03-03''] emptyStore"

section \<open>Dates\<close>

text \<open>
  The built-in \<open>Date\<close>, as far as lines 193 to 195 use it, for a process whose local time
  zone is UTC.  The functions are those of the ECMAScript specification (Day Number and
  Time within Day, MakeDay), on day numbers: the time value of a date-only string is
  its day number times the milliseconds of a day.  The months of MakeDay, MonthFromTime
  and \<open>monthStart\<close> count from 0, those of a date string from 1.

  \<open>YearFromDay day\<close> is the largest year \<open>y\<close> with \<open>DayFromYear y \<le> day\<close>, computed
  from an estimate that is off by at most one.  \<open>parseISODate\<close> reads the date-only form
  \<open>YYYY-MM-DD\<close> of a day that exists; every other string is outside this model of
  \<open>Date\<close> and is given \<open>None\<close>.  That is the Invalid Date of a string \<open>new Date\<close>
  cannot read, on which \<open>toISOString\<close> throws a RangeError; a string that an engine
  reads by rules of its own (\<open>2024-1-2\<close>, \<open>2024-02-30\<close>) is not covered.  The handler
  is therefore modelled with lines 193 to 195 as a parameter, and its properties are
  proved for every function in that place.
\<close>

definition DaysInYear :: "int \<Rightarrow> int" where
  "DaysInYear y =
     (if y mod 4 \<noteq> 0 then 365 else if y mod 100 \<noteq> 0 then 366
      else if y mod 400 \<noteq> 0 then 365 else 366)"

definition DayFromYear :: "int \<Rightarrow> int" where
  "DayFromYear y =
     365 * (y - 1970) + (y - 1969) div 4 - (y - 1901) div 100 + (y - 1601) div 400"

definition YearFromDay :: "int \<Rightarrow> int" where
  "YearFromDay day =
     (let y = 1970 + (day * 400) div 146097
      in if day < DayFromYear y then y - 1
         else if DayFromYear (y + 1) \<le> day then y + 1 else y)"

definition InLeapYear :: "int \<Rightarrow> int" where
  "InLeapYear day = (if DaysInYear (YearFromDay day) = 366 then 1 else 0)"

definition DayWithinYear :: "int \<Rightarrow> int" where
  "DayWithinYear day = day - DayFromYear (YearFromDay day)"

definition MonthFromDay :: "int \<Rightarrow> int" where
  "MonthFromDay day =
     (let d = DayWithinYear day; l = InLeapYear day
      in if d < 31 then 0 else if d < 59 + l then 1 else if d < 90 + l then 2
         else if d < 120 + l then 3 else if d < 151 + l then 4 else if d < 181 + l then 5
         else if d < 212 + l then 6 else if d < 243 + l then 7 else if d < 273 + l then 8
         else if d < 304 + l then 9 else if d < 334 + l then 10 else 11)"

definition DateFromDay :: "int \<Rightarrow> int" where
  "DateFromDay day =
     (let d = DayWithinYear day; l = InLeapYear day; m = MonthFromDay day
      in if m = 0 then d + 1 else if m = 1 then d - 30 else if m = 2 then d - 58 - l
         else if m = 3 then d - 89 - l else if m = 4 then d - 119 - l
         else if m = 5 then d - 150 - l else if m = 6 then d - 180 - l
         else if m = 7 then d - 211 - l else if m = 8 then d - 242 - l
         else if m = 9 then d - 272 - l else if m = 10 then d - 303 - l
         else d - 333 - l)"

definition monthStart :: "int \<Rightarrow> int \<Rightarrow> int" where
  "monthStart ym mn =
     [0, 31, 59, 90, 120, 151, 181, 212, 243, 273, 304, 334] ! nat mn +
     (if 2 \<le> mn \<and> DaysInYear ym = 366 then 1 else 0)"

definition MakeDay :: "int \<Rightarrow> int \<Rightarrow> int \<Rightarrow> int" where
  "MakeDay year month dt =
     (let ym = year + month div 12; mn = month mod 12
      in DayFromYear ym + monthStart ym mn + dt - 1)"

definition DaysInMonth :: "int \<Rightarrow> int \<Rightarrow> int" where
  "DaysInMonth y m =
     (if m = 2 then (if DaysInYear y = 366 then 29 else 28)
      else if m = 4 \<or> m = 6 \<or> m = 9 \<or> m = 11 then 30 else 31)"

fun digits :: "int \<Rightarrow> js_string \<Rightarrow> int option" where
  "digits acc [] = Some acc"
| "digits acc (c # cs) =
     (if 48 \<le> c \<and> c \<le> 57 then digits (acc * 10 + (uint c - 48)) cs else None)"

definition parseISODate :: "js_string \<Rightarrow> (int \<times> int \<times> int) option" where
  "parseISODate s =
     (if length s = 10 \<and> s ! 4 = 45 \<and> s ! 7 = 45 then
        (case (digits 0 (take 4 s), digits 0 (take 2 (drop 5 s)), digits 0 (drop 8 s)) of
           (Some y, Some m, Some d) \<Rightarrow>
             if 1 \<le> m \<and> m \<le> 12 \<and> 1 \<le> d \<and> d \<le> DaysInMonth y m then Some (y, m, d) else None
         | _ \<Rightarrow> None)
      else None)"

fun pad :: "nat \<Rightarrow> nat \<Rightarrow> js_string" where
  "pad 0 n = []"
| "pad (Suc w) n = pad w (n div 10) @ [of_nat (48 + n mod 10)]"

definition isoDateString :: "int \<times> int \<times> int \<Rightarrow> js_string" where
  "isoDateString ymd =
     (case ymd of (y, m, d) \<Rightarrow>
        (if 0 \<le> y \<and> y \<le> 9999 then pad 4 (nat y)
         else (if y < 0 then 45 else 43) # pad 6 (nat \<bar>y\<bar>)) @
        [45] @ pad 2 (nat m) @ [45] @ pad 2 (nat d))"

definition dateParse :: "js_string \<Rightarrow> int option" where
  "dateParse s = (case parseISODate s of None \<Rightarrow> None | Some (y, m, d) \<Rightarrow> Some (MakeDay y (m - 1) d))"

definition toISODate :: "int \<Rightarrow> js_string" where
  "toISODate day = isoDateString (YearFromDay day, MonthFromDay day + 1, DateFromDay day)"

definition utcYesterday :: "js_string \<Rightarrow> js_string option" where
  "utcYesterday s =
     (case dateParse s of
        None \<Rightarrow> None
      | Some day \<Rightarrow>
          (let yesterday = MakeDay (YearFromDay day) (MonthFromDay day) (DateFromDay day - 1)
           in Some (toISODate yesterday)))"

text \<open>
  The same three lines for a process in any time zone.  \<open>new Date(date)\<close> is midnight
  UTC of the day; \<open>getDate\<close> and \<open>setDate\<close> read and write the local time, the time
  value plus the zone's offset at that instant (LocalTime), and \<open>setDate\<close> turns the new
  local time back with the zone's offset for that local time (UTC); \<open>toISOString\<close>
  prints the day of the time value in UTC.  Times are in milliseconds, a zone is its two
  offset functions.
\<close>

record zone =
  offsetAt :: "int \<Rightarrow> int"
  offsetOfLocal :: "int \<Rightarrow> int"

definition msPerDay :: int where
  "msPerDay = 86400000"

definition Day :: "int \<Rightarrow> int" where
  "Day t = t div msPerDay"

definition TimeWithinDay :: "int \<Rightarrow> int" where
  "TimeWithinDay t = t mod msPerDay"

definition yesterdayString :: "zone \<Rightarrow> js_string \<Rightarrow> js_string option" where
  "yesterdayString z s =
     (case dateParse s of
        None \<Rightarrow> None
      | Some day \<Rightarrow>
          (let t = day * msPerDay;
               localTime = t + offsetAt z t;
               dt = DateFromDay (Day localTime) - 1;
               newDay = MakeDay (YearFromDay (Day localTime)) (MonthFromDay (Day localTime)) dt;
               newLocal = newDay * msPerDay + TimeWithinDay localTime;
               yesterday = newLocal - offsetOfLocal z newLocal
           in Some (toISODate (Day yesterday))))"

definition utcZone :: zone where
  "utcZone = \<lparr>offsetAt = (\<lambda>t. 0), offsetOfLocal = (\<lambda>t. 0)\<rparr>"

text \<open>
  Central European time during 2024: one hour ahead of UTC, two hours from
  2024-03-31T01:00Z to 2024-10-27T01:00Z.  A local time that occurs twice or not at all
  takes the offset from before the transition.
\<close>

definition berlin2024 :: zone where
  "berlin2024 =
     \<lparr>offsetAt = (\<lambda>t. if 1711846800000 \<le> t \<and> t < 1729990800000 then 7200000 else 3600000),
      offsetOfLocal =
        (\<lambda>t. if 1711854000000 \<le> t \<and> t < 1729998000000 then 7200000 else 3600000)\<rparr>"

text \<open>The store after the today handler has run on 27 and 28 October 2024.\<close>

definition octoberStore :: db where
  "octoberStore =
     fold (\<lambda>d store. snd (puzzleToday store (utf16 d) False))
       [''2024-10-27'', ''2024-10-28''] emptyStore"

text \<open>A day that exists, with the month counted from 1.\<close>

definition validDate :: "int \<Rightarrow> int \<Rightarrow> int \<Rightarrow> bool" where
  "validDate y m d = (1 \<le> m \<and> m \<le> 12 \<and> 1 \<le> d \<and> d \<le> DaysInMonth y m)"

text \<open>
  The calendar day immediately preceding a date, as the calendar has it: the day before
  in the same month, else the last day of the month before, else 31 December of the
  year before.
\<close>

definition precedingDay :: "int \<times> int \<times> int \<Rightarrow> int \<times> int \<times> int" where
  "precedingDay ymd =
     (case ymd of (y, m, d) \<Rightarrow>
        if 1 < d then (y, m, d - 1)
        else if 1 < m then (y, m - 1, DaysInMonth y (m - 1))
        else (y - 1, 12, 31))"

section \<open>Properties of the generator\<close>

lemma sint_wrap32: "sint (word_of_int x :: 32 word) = wrap32 x"
  by (simp add: int_word_sint wrap32_def)

lemma hash_step:
  "js_bitand (js_shl h 5 - h + c) (js_shl h 5 - h + c) = wrap32 (h * 31 + c)"
proof -
  have "(word_of_int (js_shl h 5 - h + c) :: 32 word) = word_of_int (h * 31 + c)"
    by (simp add: js_shl_def push_bit_eq_mult)
  then have "sint (word_of_int (js_shl h 5 - h + c) :: 32 word) = wrap32 (h * 31 + c)"
    by (simp only: sint_wrap32)
  then show ?thesis
    by (simp add: js_bitand_def)
qed

lemma wrap32_range: "- 2147483648 \<le> wrap32 x \<and> wrap32 x < 2147483648"
  by (simp add: wrap32_def)

lemma hash_loop_range:
  "- 2147483648 \<le> h \<Longrightarrow> h < 2147483648 \<Longrightarrow>
   - 2147483648 \<le> hash_loop h str \<and> hash_loop h str < 2147483648"
proof (induction str arbitrary: h)
  case Nil then show ?case by simp
next
  case (Cons c cs)
  show ?case using Cons.IH [of "wrap32 (h * 31 + uint c)"] wrap32_range [of "h * 31 + uint c"]
    by (simp add: hash_step Let_def)
qed

lemma hashCode_range: "0 \<le> hashCode str \<and> hashCode str \<le> 2147483648"
  using hash_loop_range [of 0 str] by (auto simp add: hashCode_def abs_if)

lemma lcg_range: "0 \<le> s \<Longrightarrow> 0 \<le> lcg s \<and> lcg s < 4294967296"
  by (simp add: lcg_def smod_mod_positive)

lemma rng_range: "0 \<le> s \<Longrightarrow> 0 \<le> fst (rng s) \<and> fst (rng s) < 1"
  using lcg_range [of s] by (simp add: rng_def Let_def)

lemma index_range:
  fixes r :: rat
  assumes "0 \<le> r" "r < 1" "0 < n"
  shows "0 \<le> \<lfloor>r * of_nat n\<rfloor> \<and> \<lfloor>r * of_nat n\<rfloor> < int n"
proof -
  have "r * of_nat n < of_nat n" using assms by simp
  then have "\<lfloor>r * of_nat n\<rfloor> < int n" by (simp add: floor_less_iff)
  moreover have "0 \<le> r * of_nat n" using assms by simp
  ultimately show ?thesis by simp
qed

lemma pool_length:
  assumes "distinct code" "set code \<subseteq> Some ` set numbers"
  shows "length (filter (\<lambda>n. Some n \<notin> set code) numbers) = 6 - length code"
proof -
  have d: "distinct numbers" by (simp add: numbers_def)
  have "length (filter (\<lambda>n. Some n \<notin> set code) numbers) = card (set (filter (\<lambda>n. Some n \<notin> set code) numbers))"
    using d by (metis distinct_card distinct_filter)
  also have "set (filter (\<lambda>n. Some n \<notin> set code) numbers) = set numbers - the ` set code"
    using assms(2) by (force simp: image_iff)
  also have "card (set numbers - the ` set code) = card (set numbers) - card (the ` set code)"
    using assms(2) by (intro card_Diff_subset) auto
  also have "card (the ` set code) = card (set code)"
    using assms(2) by (intro card_image inj_onI) (metis imageE option.sel subsetD)
  also have "card (set code) = length code" using assms(1) by (simp add: distinct_card)
  also have "card (set numbers) = 6" using d by (simp add: distinct_card numbers_def)
  finally show ?thesis .
qed


lemma draw_step:
  assumes "draw_ok dup k sc" "k < 4"
  shows "draw_ok dup (Suc k) (draw dup sc)"
proof -
  obtain state code where sc: "sc = (state, code)" by (cases sc)
  let ?avail = "availableNumbers dup code"
  let ?r = "fst (rng state)"
  let ?i = "\<lfloor>?r * of_nat (length ?avail)\<rfloor>"
  from assms sc have st: "0 \<le> state" "state < 4294967296" and len: "length code = k"
    and sub: "set code \<subseteq> Some ` set numbers" and dis: "\<not> dup \<Longrightarrow> distinct code"
    by (auto simp: draw_ok_def)
  have avail_len: "0 < length ?avail"
    using pool_length [OF dis sub] len assms(2) by (cases dup) (auto simp: availableNumbers_def numbers_def)
  have r: "0 \<le> ?r \<and> ?r < 1" using rng_range [OF st(1)] .
  have i: "0 \<le> ?i \<and> ?i < int (length ?avail)" using index_range r avail_len by blast
  then have pick: "js_index ?avail ?i = Some (?avail ! nat ?i)"
    by (simp add: js_index_def)
  have "nat ?i < length ?avail" using i by linarith
  then have mem: "?avail ! nat ?i \<in> set ?avail" by (rule nth_mem)
  have d: "draw dup sc = (snd (rng state), code @ [Some (?avail ! nat ?i)])"
    using pick by (simp add: draw_def sc Let_def split_beta)
  have s': "0 \<le> snd (rng state) \<and> snd (rng state) < 4294967296"
    using lcg_range [OF st(1)] by (simp add: rng_def Let_def)
  have in_numbers: "?avail ! nat ?i \<in> set numbers"
    using mem by (auto simp: availableNumbers_def split: if_splits)
  have fresh: "\<not> dup \<Longrightarrow> Some (?avail ! nat ?i) \<notin> set code"
    using mem by (auto simp: availableNumbers_def)
  show ?thesis
    unfolding d draw_ok_def using s' len sub dis in_numbers fresh by auto
qed

lemma hash_loop_spec: "hash_loop h str = spec_hash h str"
  by (induction str arbitrary: h) (simp_all add: hash_step Let_def)

lemma gen_loop_funpow: "gen_loop i dup sc = snd ((draw dup ^^ (4 - i)) sc)"
proof (induction i dup sc rule: gen_loop.induct)
  case (1 i dup sc)
  show ?case
  proof (cases "i < 4")
    case True
    then have "4 - i = Suc (4 - (i + 1))" by simp
    then show ?thesis
      using 1 True by (simp add: gen_loop.simps [of i] funpow_swap1)
  next
    case False
    then show ?thesis by (simp add: gen_loop.simps [of i])
  qed
qed

lemma draw_ok_funpow: "k \<le> 4 \<Longrightarrow> draw_ok dup k ((draw dup ^^ k) (hashCode d, []))"
proof (induction k)
  case 0
  show ?case using hashCode_range [of d] by (simp add: draw_ok_def)
next
  case (Suc k)
  then show ?case using draw_step [of dup k] by simp
qed

lemma code4:
  assumes "length code = 4" "set code \<subseteq> Some ` set numbers"
  shows "\<exists>a b c d. code = [Some a, Some b, Some c, Some d] \<and> {a, b, c, d} \<subseteq> {1..6}"
proof -
  from assms(1) obtain w x y z where c: "code = [w, x, y, z]"
    by (auto simp: length_Suc_conv numeral_eq_Suc)
  with assms(2) obtain a b c' d where e: "w = Some a" "x = Some b" "y = Some c'" "z = Some d"
    and m: "{a, b, c', d} \<subseteq> set numbers"
    by auto
  have "set numbers \<subseteq> {1..6}" by (simp add: numbers_def)
  with m have "{a, b, c', d} \<subseteq> {1..6}" by (rule subset_trans)
  with c e show ?thesis by blast
qed

text \<open>
  Claim C6.  For every input string, the empty one included, \<open>generateDailyCode\<close>
  without duplicates returns exactly four numbers, pairwise distinct and each between 1
  and 6; with duplicates allowed it returns exactly four numbers, each between 1 and 6.
  No element of either result is \<open>undefined\<close>.
\<close>

theorem generateDailyCode_values:
  "(\<exists>a b c d. generateDailyCode dateString False = [Some a, Some b, Some c, Some d] \<and>
       distinct [a, b, c, d] \<and> {a, b, c, d} \<subseteq> {1..6}) \<and>
   (\<exists>a b c d. generateDailyCode dateString True = [Some a, Some b, Some c, Some d] \<and>
       {a, b, c, d} \<subseteq> {1..6})"
proof
  have ok: "draw_ok False 4 ((draw False ^^ 4) (hashCode dateString, []))"
    by (rule draw_ok_funpow) simp
  then obtain a b c d where
    e: "generateDailyCode dateString False = [Some a, Some b, Some c, Some d]" and r: "{a, b, c, d} \<subseteq> {1..6}"
    using code4 [of "generateDailyCode dateString False"]
    by (auto simp: generateDailyCode_def gen_loop_funpow draw_ok_def split: prod.splits)
  have "distinct (generateDailyCode dateString False)"
    using ok by (auto simp: generateDailyCode_def gen_loop_funpow draw_ok_def split: prod.splits)
  then have "distinct [a, b, c, d]" unfolding e by (simp add: distinct_map [of Some "[a, b, c, d]", simplified])
  then show "\<exists>a b c d. generateDailyCode dateString False = [Some a, Some b, Some c, Some d] \<and>
       distinct [a, b, c, d] \<and> {a, b, c, d} \<subseteq> {1..6}" using e r by blast
next
  have ok: "draw_ok True 4 ((draw True ^^ 4) (hashCode dateString, []))"
    by (rule draw_ok_funpow) simp
  then show "\<exists>a b c d. generateDailyCode dateString True = [Some a, Some b, Some c, Some d] \<and>
       {a, b, c, d} \<subseteq> {1..6}"
    using code4 [of "generateDailyCode dateString True"]
    by (auto simp: generateDailyCode_def gen_loop_funpow draw_ok_def split: prod.splits)
qed


text \<open>
  Claim C10.  \<open>generateDailyCode\<close> is the fourth iterate of the loop body on the seed
  and the empty code.  At each of the four draws the pool is not empty (six numbers
  when duplicates are allowed, six less the draws made when not, so 6, 5, 4, 3), the
  value of \<open>rng()\<close> lies in [0, 1), the index \<open>floor(rng() * poolSize)\<close> lies in the pool
  and the read at it is defined; the sequence returned has exactly four elements, none
  of them \<open>undefined\<close>.
\<close>

theorem generateDailyCode_total:
  "generateDailyCode dateString allowDuplicates =
     snd ((draw allowDuplicates ^^ 4) (hashCode dateString, [])) \<and>
   length (generateDailyCode dateString allowDuplicates) = 4 \<and>
   None \<notin> set (generateDailyCode dateString allowDuplicates) \<and>
   (\<forall>i<4. case (draw allowDuplicates ^^ i) (hashCode dateString, []) of (state, code) \<Rightarrow>
      (let avail = availableNumbers allowDuplicates code;
           r = fst (rng state);
           randomIndex = \<lfloor>r * of_nat (length avail)\<rfloor>
       in length avail = (if allowDuplicates then 6 else 6 - i) \<and> avail \<noteq> [] \<and>
          0 \<le> r \<and> r < 1 \<and> 0 \<le> randomIndex \<and> randomIndex < int (length avail) \<and>
          js_index avail randomIndex \<noteq> None))"
proof (intro conjI allI impI)
  show u: "generateDailyCode dateString allowDuplicates =
     snd ((draw allowDuplicates ^^ 4) (hashCode dateString, []))"
    by (simp add: generateDailyCode_def gen_loop_funpow)
  have ok: "draw_ok allowDuplicates 4 ((draw allowDuplicates ^^ 4) (hashCode dateString, []))"
    by (rule draw_ok_funpow) simp
  show "length (generateDailyCode dateString allowDuplicates) = 4"
    unfolding u using ok by (auto simp: draw_ok_def split: prod.splits)
  show "None \<notin> set (generateDailyCode dateString allowDuplicates)"
    unfolding u using ok by (auto simp: draw_ok_def split: prod.splits)
next
  fix i :: nat assume i: "i < 4"
  obtain state code where sc: "(draw allowDuplicates ^^ i) (hashCode dateString, []) = (state, code)"
    by (cases "(draw allowDuplicates ^^ i) (hashCode dateString, [])")
  have "draw_ok allowDuplicates i (state, code)"
    using draw_ok_funpow [of i allowDuplicates dateString] i sc by simp
  then have st: "0 \<le> state" and len: "length code = i"
    and sub: "set code \<subseteq> Some ` set numbers" and dis: "\<not> allowDuplicates \<Longrightarrow> distinct code"
    by (auto simp: draw_ok_def)
  let ?avail = "availableNumbers allowDuplicates code"
  let ?r = "fst (rng state)"
  let ?i = "\<lfloor>?r * of_nat (length ?avail)\<rfloor>"
  have al: "length ?avail = (if allowDuplicates then 6 else 6 - i)"
    using pool_length [OF dis sub] len by (cases allowDuplicates) (auto simp: availableNumbers_def numbers_def)
  then have pos: "0 < length ?avail" using i by (simp split: if_splits)
  then have ne: "?avail \<noteq> []" by simp
  have r: "0 \<le> ?r \<and> ?r < 1" using rng_range [OF st] .
  have ix: "0 \<le> ?i \<and> ?i < int (length ?avail)" using index_range r pos by blast
  then have "js_index ?avail ?i \<noteq> None" by (simp add: js_index_def)
  then show "case (draw allowDuplicates ^^ i) (hashCode dateString, []) of (state, code) \<Rightarrow>
      (let avail = availableNumbers allowDuplicates code;
           r = fst (rng state);
           randomIndex = \<lfloor>r * of_nat (length avail)\<rfloor>
       in length avail = (if allowDuplicates then 6 else 6 - i) \<and> avail \<noteq> [] \<and>
          0 \<le> r \<and> r < 1 \<and> 0 \<le> randomIndex \<and> randomIndex < int (length avail) \<and>
          js_index avail randomIndex \<noteq> None)"
    unfolding sc using al ne r ix by (simp add: Let_def)
qed

theorem generateDailyCode_total_witness:
  "(3::nat) < 4 \<and>
   length (generateDailyCode (utf16 ''2024-01-01'') False) = 4 \<and>
   (draw False ^^ 3) (hashCode (utf16 ''2024-01-01''), []) = (87241641, [Some 2, Some 5, Some 1]) \<and>
   availableNumbers False [Some 2, Some 5, Some 1] = [3, 4, 6] \<and>
   \<lfloor>fst (rng 87241641) * 3\<rfloor> = 2 \<and>
   js_index [3, 4, 6 :: int] 2 \<noteq> None"
proof -
  note t = generateDailyCode_total [of "utf16 ''2024-01-01''" False]
  note q = t [THEN conjunct2, THEN conjunct2, THEN conjunct2, rule_format, of 3]
  have s: "(draw False ^^ 3) (hashCode (utf16 ''2024-01-01''), []) = (87241641, [Some 2, Some 5, Some 1])"
    by code_simp
  have a: "availableNumbers False [Some 2, Some 5, Some 1] = [3, 4, 6]" by code_simp
  have j: "js_index [3, 4, 6 :: int] \<lfloor>fst (rng 87241641) * 3\<rfloor> \<noteq> None"
    using q by (simp add: s a Let_def)
  have f: "\<lfloor>fst (rng 87241641) * 3\<rfloor> = 2" by code_simp
  have l: "length (generateDailyCode (utf16 ''2024-01-01'') False) = 4"
    using t by (elim conjE)
  show ?thesis using l s a j f by simp
qed

text \<open>
  Claim C7.  The seed is the absolute value of the hash accumulated as
  \<open>hash*31 + charCode\<close> with signed 32-bit wrap-around at every step (the shift by 5
  less the hash itself, folded to 32 bits, computes just that); it lies between 0 and
  2^31.  From a state in [0, 2^32) a call of the closure moves the state to
  \<open>(state * 1664525 + 1013904223) mod 2^32\<close> and yields that state over 2^32; the
  number under the \<open>mod\<close> stays below 2^53, so it is an integer a double holds exactly,
  the new state is again in [0, 2^32), and the index \<open>floor(rng() * n)\<close> is the integer
  quotient of \<open>state * n\<close> by 2^32.
\<close>

theorem hashCode_lcg_exact:
  "hashCode str = \<bar>spec_hash 0 str\<bar> \<and> 0 \<le> hashCode str \<and> hashCode str \<le> 2147483648 \<and>
   (0 \<le> state \<and> state < 4294967296 \<longrightarrow>
      rng state = (of_int ((state * 1664525 + 1013904223) mod 4294967296) / 4294967296,
                   (state * 1664525 + 1013904223) mod 4294967296) \<and>
      state * 1664525 + 1013904223 < 9007199254740992 \<and>
      0 \<le> snd (rng state) \<and> snd (rng state) < 4294967296 \<and>
      \<lfloor>fst (rng state) * of_nat n\<rfloor> = (snd (rng state) * int n) div 4294967296)"
proof (intro conjI impI)
  show "hashCode str = \<bar>spec_hash 0 str\<bar>" by (simp add: hashCode_def hash_loop_spec)
  show "0 \<le> hashCode str" "hashCode str \<le> 2147483648" using hashCode_range [of str] by simp_all
next
  assume s: "0 \<le> state \<and> state < 4294967296"
  then have l: "lcg state = (state * 1664525 + 1013904223) mod 4294967296"
    by (simp add: lcg_def smod_mod_positive)
  show "rng state = (of_int ((state * 1664525 + 1013904223) mod 4294967296) / 4294967296,
                   (state * 1664525 + 1013904223) mod 4294967296)"
    by (simp add: rng_def Let_def l)
  show "state * 1664525 + 1013904223 < 9007199254740992" using s by simp
  show "0 \<le> snd (rng state)" "snd (rng state) < 4294967296"
    using lcg_range [of state] s by (simp_all add: rng_def Let_def)
  have "fst (rng state) * of_nat n = (of_int (snd (rng state) * int n) :: rat) / of_int 4294967296"
    by (simp add: rng_def Let_def)
  then show "\<lfloor>fst (rng state) * of_nat n\<rfloor> = (snd (rng state) * int n) div 4294967296"
    by (simp only: floor_divide_of_int_eq)
qed

theorem hashCode_lcg_exact_witness:
  "hashCode (utf16 ''2024-01-01'') = 613341632 \<and> spec_hash 0 (utf16 ''2024-01-01'') = - 613341632 \<and>
   (0::int) \<le> 613341632 \<and> (613341632::int) < 4294967296 \<and>
   rng 613341632 = (1177715231 / 4294967296, 1177715231)"
proof -
  have h: "spec_hash 0 (utf16 ''2024-01-01'') = - 613341632" by code_simp
  have r: "(0::int) \<le> 613341632 \<and> (613341632::int) < 4294967296" by simp
  show ?thesis using hashCode_lcg_exact [of "utf16 ''2024-01-01''" 613341632 6] h r by simp
qed

section \<open>Duplicate submissions\<close>

lemma hasPlayed_find:
  "hasPlayed store req \<longleftrightarrow>
   find (\<lambda>g. gameDate g = reqDate req) (games (playerOf store (reqPlayerId req))) \<noteq> None"
  by (auto simp: hasPlayed_def find_None_iff)

lemma submit_played: "hasPlayed store req \<Longrightarrow> submit yd store req = (AlreadyPlayed, store)"
  by (simp add: submit_def hasPlayed_find Let_def)

lemma submit_range_error:
  "\<not> hasPlayed store req \<Longrightarrow> updateStats yd (stats (playerOf store (reqPlayerId req))) req = None \<Longrightarrow>
   submit yd store req = (InternalError RangeError, store)"
  by (simp add: submit_def hasPlayed_find Let_def)

lemma submit_invalid:
  "\<not> hasPlayed store req \<Longrightarrow>
   updateStats yd (stats (playerOf store (reqPlayerId req))) req = Some st \<Longrightarrow>
   playerId (playerOf store (reqPlayerId req)) = [] \<Longrightarrow>
   submit yd store req = (InternalError ValidationError, store)"
  by (simp add: submit_def hasPlayed_find Let_def)

text \<open>The player the handler saves when it gets that far.\<close>

lemma submit_no_puzzle:
  assumes "\<not> hasPlayed store req"
    and "updateStats yd (stats (playerOf store (reqPlayerId req))) req = Some st"
    and "playerId (playerOf store (reqPlayerId req)) \<noteq> []"
    and "puzzles store (reqDate req) = None"
  shows "submit yd store req =
     (InternalError TypeError,
      store\<lparr>players := (players store)(reqPlayerId req \<mapsto>
        (playerOf store (reqPlayerId req))
          \<lparr>stats := st, games := games (playerOf store (reqPlayerId req)) @ [gameOf req]\<rparr>)\<rparr>)"
  using assms by (simp add: submit_def hasPlayed_find Let_def)

lemma submit_puzzle:
  assumes "\<not> hasPlayed store req"
    and "updateStats yd (stats (playerOf store (reqPlayerId req))) req = Some st"
    and "playerId (playerOf store (reqPlayerId req)) \<noteq> []"
    and "puzzles store (reqDate req) = Some puzzle"
  shows "submit yd store req =
     (let p1 = (playerOf store (reqPlayerId req))
                 \<lparr>stats := st, games := games (playerOf store (reqPlayerId req)) @ [gameOf req]\<rparr>;
          puzzle1 = updatePuzzle puzzle p1 req
      in (Success st (todayStatsOf puzzle1),
          updateLeaderboards
            (store\<lparr>players := (players store)(reqPlayerId req \<mapsto> p1),
                   puzzles := (puzzles store)(reqDate req \<mapsto> puzzle1)\<rparr>)
            (reqDate req) p1 (reqWon req) (reqGuesses req) (reqTime req)))"
  using assms by (simp add: submit_def hasPlayed_find Let_def)

lemma updateLeaderboards_players [simp]:
  "players (updateLeaderboards store d p w g t) = players store"
  by (simp add: updateLeaderboards_def Let_def)

lemma updateLeaderboards_puzzles [simp]:
  "puzzles (updateLeaderboards store d p w g t) = puzzles store"
  by (simp add: updateLeaderboards_def Let_def)

lemma submit_cases:
  obtains (played) "hasPlayed store req" "submit yd store req = (AlreadyPlayed, store)"
  | (range) "\<not> hasPlayed store req" "submit yd store req = (InternalError RangeError, store)"
      "updateStats yd (stats (playerOf store (reqPlayerId req))) req = None"
  | (invalid) "\<not> hasPlayed store req"
      "submit yd store req = (InternalError ValidationError, store)"
      "playerId (playerOf store (reqPlayerId req)) = []"
  | (saved) st where "\<not> hasPlayed store req"
      "updateStats yd (stats (playerOf store (reqPlayerId req))) req = Some st"
      "playerId (playerOf store (reqPlayerId req)) \<noteq> []"
      "players (snd (submit yd store req)) = (players store)(reqPlayerId req \<mapsto>
        (playerOf store (reqPlayerId req))
          \<lparr>stats := st, games := games (playerOf store (reqPlayerId req)) @ [gameOf req]\<rparr>)"
      "fst (submit yd store req) = InternalError TypeError \<or>
       statusCode (fst (submit yd store req)) = 200"
proof (cases "hasPlayed store req")
  case True
  then show ?thesis using played submit_played by blast
next
  case np: False
  show ?thesis
  proof (cases "updateStats yd (stats (playerOf store (reqPlayerId req))) req")
    case None
    then show ?thesis using range np submit_range_error by blast
  next
    case st: (Some st)
    show ?thesis
    proof (cases "playerId (playerOf store (reqPlayerId req)) = []")
      case True
      then show ?thesis using invalid np st submit_invalid by blast
    next
      case ok: False
      show ?thesis
      proof (cases "puzzles store (reqDate req)")
        case None
        show ?thesis
          by (rule saved [OF np st ok]) (simp_all add: submit_no_puzzle [OF np st ok None])
      next
        case (Some puzzle)
        show ?thesis
          by (rule saved [OF np st ok])
             (simp_all add: submit_puzzle [OF np st ok Some] Let_def)
      qed
    qed
  qed
qed

text \<open>
  Claim C2.  A submission for a player and a date is answered with the status 400 of
  ``Already played today'' and leaves the whole store (players, puzzles, leaderboards) as
  it was, whenever the stored player has a game of that date; and that is the case after
  any first submission for the same player and date that got as far as saving the player
  (every one but a win whose date the handler cannot turn into a day, answered with the
  RangeError, and a player whose playerId is empty, whom \<open>save\<close> rejects with the
  ValidationError), so the second one leaves the store exactly as the first one left it.
\<close>

theorem submit_twice_rejected:
  assumes "reqPlayerId req' = reqPlayerId req" and "reqDate req' = reqDate req"
  shows "(\<forall>p g. players store (reqPlayerId req) = Some p \<and> g \<in> set (games p) \<and>
              gameDate g = reqDate req \<longrightarrow>
            submit yd store req' = (AlreadyPlayed, store)) \<and>
         (fst (submit yd store req) \<noteq> InternalError RangeError \<and>
          fst (submit yd store req) \<noteq> InternalError ValidationError \<longrightarrow>
            submit yd' (snd (submit yd store req)) req' =
              (AlreadyPlayed, snd (submit yd store req))) \<and>
         statusCode AlreadyPlayed = 400"
proof (intro conjI allI impI)
  fix p g
  assume "players store (reqPlayerId req) = Some p \<and> g \<in> set (games p) \<and> gameDate g = reqDate req"
  then have "hasPlayed store req'"
    using assms by (auto simp: hasPlayed_def playerOf_def)
  then show "submit yd store req' = (AlreadyPlayed, store)" by (rule submit_played)
next
  assume ok: "fst (submit yd store req) \<noteq> InternalError RangeError \<and>
          fst (submit yd store req) \<noteq> InternalError ValidationError"
  have "hasPlayed (snd (submit yd store req)) req'"
  proof (cases rule: submit_cases [of store req yd])
    case played
    then show ?thesis using assms by (simp add: hasPlayed_def)
  next
    case range
    then show ?thesis using ok by simp
  next
    case invalid
    then show ?thesis using ok by simp
  next
    case (saved st)
    then show ?thesis using assms by (simp add: hasPlayed_def playerOf_def gameOf_def)
  qed
  then show "submit yd' (snd (submit yd store req)) req' = (AlreadyPlayed, snd (submit yd store req))"
    by (rule submit_played)
next
  show "statusCode AlreadyPlayed = 400" by simp
qed

section \<open>Submissions for a date without a puzzle\<close>

lemma updateStats_Some:
  "reqWon req \<longrightarrow> yd (reqDate req) \<noteq> None \<Longrightarrow>
   \<exists>st'. updateStats yd st req = Some st' \<and> gamesPlayed st' = gamesPlayed st + 1 \<and>
         lastPlayDate st' = Some (reqDate req)"
  by (cases "yd (reqDate req)") (auto simp: updateStats_def Let_def)

theorem submit_twice_rejected_witness:
  "submit utcYesterday
     (snd (submit utcYesterday newYearStore (play ''ann'' ''2024-01-01'' True 3 45000)))
     (play ''ann'' ''2024-01-01'' False 6 90000) =
   (AlreadyPlayed, snd (submit utcYesterday newYearStore (play ''ann'' ''2024-01-01'' True 3 45000))) \<and>
   statusCode (fst (submit utcYesterday newYearStore (play ''ann'' ''2024-01-01'' True 3 45000))) = 200"
proof -
  let ?a = "play ''ann'' ''2024-01-01'' True 3 45000"
  let ?b = "play ''ann'' ''2024-01-01'' False 6 90000"
  have h: "reqPlayerId ?b = reqPlayerId ?a" "reqDate ?b = reqDate ?a"
    by (simp_all add: play_def)
  have s: "statusCode (fst (submit utcYesterday newYearStore ?a)) = 200" by code_simp
  then have r: "fst (submit utcYesterday newYearStore ?a) \<noteq> InternalError RangeError"
    "fst (submit utcYesterday newYearStore ?a) \<noteq> InternalError ValidationError" by auto
  show ?thesis
    using submit_twice_rejected [OF h, of newYearStore utcYesterday utcYesterday] r s by blast
qed

text \<open>
  Claim C1, as stated, fails.  On the empty store, which has no puzzle for 2024-01-01,
  a lost game of player p1 for that date is answered with status 500, not 404, and the
  player, who was not in the store, is in it afterwards with one game played.
\<close>

theorem submit_missing_puzzle_counterexample:
  "puzzles emptyStore (reqDate (play ''p1'' ''2024-01-01'' False 6 60000)) = None \<and>
   players emptyStore (utf16 ''p1'') = None \<and>
   fst (submit utcYesterday emptyStore (play ''p1'' ''2024-01-01'' False 6 60000)) =
     InternalError TypeError \<and>
   statusCode (fst (submit utcYesterday emptyStore (play ''p1'' ''2024-01-01'' False 6 60000))) = 500 \<and>
   players (snd (submit utcYesterday emptyStore (play ''p1'' ''2024-01-01'' False 6 60000)))
       (utf16 ''p1'') =
     Some \<lparr>playerId = utf16 ''p1'', email = None, username = None, passwordHash = None,
           stats = \<lparr>gamesPlayed = 1, gamesWon = 0, currentStreak = 0, maxStreak = 0,
                    totalGuesses = 0, lastPlayDate = Some (utf16 ''2024-01-01''),
                    fastestTime = None\<rparr>,
           games = [\<lparr>gameDate = utf16 ''2024-01-01'', won = False, guesses = 6,
                     time = 60000, attempts = []\<rparr>]\<rparr>"
proof (intro conjI)
  show "puzzles emptyStore (reqDate (play ''p1'' ''2024-01-01'' False 6 60000)) = None"
    by (simp add: emptyStore_def)
  show "players emptyStore (utf16 ''p1'') = None"
    by (simp add: emptyStore_def)
  show "fst (submit utcYesterday emptyStore (play ''p1'' ''2024-01-01'' False 6 60000)) =
     InternalError TypeError"
    by code_simp
  then show "statusCode (fst (submit utcYesterday emptyStore (play ''p1'' ''2024-01-01'' False 6 60000))) = 500"
    by simp
  show "players (snd (submit utcYesterday emptyStore (play ''p1'' ''2024-01-01'' False 6 60000)))
       (utf16 ''p1'') =
     Some \<lparr>playerId = utf16 ''p1'', email = None, username = None, passwordHash = None,
           stats = \<lparr>gamesPlayed = 1, gamesWon = 0, currentStreak = 0, maxStreak = 0,
                    totalGuesses = 0, lastPlayDate = Some (utf16 ''2024-01-01''),
                    fastestTime = None\<rparr>,
           games = [\<lparr>gameDate = utf16 ''2024-01-01'', won = False, guesses = 6,
                     time = 60000, attempts = []\<rparr>]\<rparr>"
    by code_simp
qed

text \<open>
  Claim C1, amended.  For a submission whose date has no puzzle in the store, the
  handler creates or changes no puzzle and no leaderboard and touches no other player.
  It does not check for the puzzle before it writes the player: unless the player
  already has a game of that date, or the game is a win whose date cannot be turned
  into a day, or the player's playerId is empty (then \<open>save\<close> rejects the document and
  the store is left as it was), the player is saved with the updated stats (one more
  game played, the date as lastPlayDate) and with the game added to the history, as for
  any other submission.
\<close>

theorem submit_missing_puzzle:
  assumes "puzzles store (reqDate req) = None"
  shows "puzzles (snd (submit yd store req)) = puzzles store \<and>
         leaderboards (snd (submit yd store req)) = leaderboards store \<and>
         (\<forall>pid. pid \<noteq> reqPlayerId req \<longrightarrow>
            players (snd (submit yd store req)) pid = players store pid) \<and>
         (hasPlayed store req \<or> playerId (playerOf store (reqPlayerId req)) = [] \<longrightarrow>
            snd (submit yd store req) = store) \<and>
         (\<not> hasPlayed store req \<and> (reqWon req \<longrightarrow> yd (reqDate req) \<noteq> None) \<and>
          playerId (playerOf store (reqPlayerId req)) \<noteq> [] \<longrightarrow>
            (\<exists>st. updateStats yd (stats (playerOf store (reqPlayerId req))) req = Some st \<and>
               gamesPlayed st = gamesPlayed (stats (playerOf store (reqPlayerId req))) + 1 \<and>
               lastPlayDate st = Some (reqDate req) \<and>
               players (snd (submit yd store req)) (reqPlayerId req) =
                 Some ((playerOf store (reqPlayerId req))
                   \<lparr>stats := st,
                    games := games (playerOf store (reqPlayerId req)) @ [gameOf req]\<rparr>)))"
proof -
  let ?p = "playerOf store (reqPlayerId req)"
  have frame: "puzzles (snd (submit yd store req)) = puzzles store \<and>
         leaderboards (snd (submit yd store req)) = leaderboards store \<and>
         (\<forall>pid. pid \<noteq> reqPlayerId req \<longrightarrow>
            players (snd (submit yd store req)) pid = players store pid)"
  proof (cases rule: submit_cases [of store req yd])
    case played
    then show ?thesis by simp
  next
    case range
    then show ?thesis by simp
  next
    case invalid
    then show ?thesis by simp
  next
    case (saved st)
    show ?thesis by (simp add: submit_no_puzzle [OF saved(1,2,3) assms])
  qed
  have same: "snd (submit yd store req) = store"
    if "hasPlayed store req \<or> playerId ?p = []"
  proof (cases rule: submit_cases [of store req yd])
    case played
    then show ?thesis by simp
  next
    case range
    then show ?thesis by simp
  next
    case invalid
    then show ?thesis by simp
  next
    case (saved st)
    then show ?thesis using that by simp
  qed
  have saved: "\<exists>st. updateStats yd (stats ?p) req = Some st \<and>
               gamesPlayed st = gamesPlayed (stats ?p) + 1 \<and>
               lastPlayDate st = Some (reqDate req) \<and>
               players (snd (submit yd store req)) (reqPlayerId req) =
                 Some (?p\<lparr>stats := st, games := games ?p @ [gameOf req]\<rparr>)"
    if np: "\<not> hasPlayed store req" and d: "reqWon req \<longrightarrow> yd (reqDate req) \<noteq> None"
      and ok: "playerId ?p \<noteq> []"
  proof -
    from updateStats_Some [where st = "stats ?p" and yd = yd and req = req, OF d] obtain st where
      st: "updateStats yd (stats ?p) req = Some st" "gamesPlayed st = gamesPlayed (stats ?p) + 1"
        "lastPlayDate st = Some (reqDate req)" by blast
    show ?thesis using st by (simp add: submit_no_puzzle [OF np st(1) ok assms])
  qed
  show ?thesis using frame same saved by blast
qed

theorem submit_missing_puzzle_witness:
  "puzzles emptyStore (reqDate (play ''p2'' ''2024-01-02'' True 3 45000)) = None \<and>
   \<not> hasPlayed emptyStore (play ''p2'' ''2024-01-02'' True 3 45000) \<and>
   utcYesterday (utf16 ''2024-01-02'') = Some (utf16 ''2024-01-01'') \<and>
   playerId (playerOf emptyStore (reqPlayerId (play ''p2'' ''2024-01-02'' True 3 45000))) \<noteq> [] \<and>
   puzzles (snd (submit utcYesterday emptyStore (play ''p2'' ''2024-01-02'' True 3 45000))) =
     puzzles emptyStore \<and>
   leaderboards (snd (submit utcYesterday emptyStore (play ''p2'' ''2024-01-02'' True 3 45000))) =
     leaderboards emptyStore \<and>
   players (snd (submit utcYesterday emptyStore (play ''p2'' ''2024-01-02'' True 3 45000)))
       (utf16 ''p2'') \<noteq> None \<and>
   playerId (playerOf emptyStore (reqPlayerId (play [] ''2024-01-02'' True 3 45000))) = [] \<and>
   snd (submit utcYesterday emptyStore (play [] ''2024-01-02'' True 3 45000)) = emptyStore"
proof -
  let ?r = "play ''p2'' ''2024-01-02'' True 3 45000"
  let ?e = "play [] ''2024-01-02'' True 3 45000"
  have a: "puzzles emptyStore (reqDate ?r) = None" by (simp add: emptyStore_def)
  have a': "puzzles emptyStore (reqDate ?e) = None" by (simp add: emptyStore_def)
  have b: "\<not> hasPlayed emptyStore ?r"
    by (simp add: hasPlayed_def playerOf_def emptyStore_def newPlayer_def)
  have c: "utcYesterday (utf16 ''2024-01-02'') = Some (utf16 ''2024-01-01'')" by code_simp
  then have d: "reqWon ?r \<longrightarrow> utcYesterday (reqDate ?r) \<noteq> None" by (simp add: play_def)
  have i: "playerId (playerOf emptyStore (reqPlayerId ?r)) \<noteq> []"
    by (simp add: playerOf_def emptyStore_def newPlayer_def play_def utf16_def)
  have i': "playerId (playerOf emptyStore (reqPlayerId ?e)) = []"
    by (simp add: playerOf_def emptyStore_def newPlayer_def play_def utf16_def)
  have e: "snd (submit utcYesterday emptyStore ?e) = emptyStore"
    using submit_missing_puzzle [OF a', of utcYesterday] i' by blast
  have f: "puzzles (snd (submit utcYesterday emptyStore ?r)) = puzzles emptyStore"
    "leaderboards (snd (submit utcYesterday emptyStore ?r)) = leaderboards emptyStore"
    "players (snd (submit utcYesterday emptyStore ?r)) (utf16 ''p2'') \<noteq> None"
    using submit_missing_puzzle [OF a, of utcYesterday] b d i by (auto simp: play_def)
  show ?thesis using a b c i f i' e by simp
qed

section \<open>Double arithmetic\<close>

lemma two_powi_pos: "0 < (2::rat) powi k"
  by (simp add: zero_less_power_int)

lemma two_powi_mono: "k \<le> l \<Longrightarrow> (2::rat) powi k \<le> 2 powi l"
  by (rule power_int_increasing) simp_all

lemma two_powi_less: "(2::rat) powi k < 2 powi l \<Longrightarrow> k < l"
  using two_powi_mono [of l k] by (cases "k < l") auto

lemma two_powi_nat: "0 \<le> k \<Longrightarrow> (2::rat) powi k = 2 ^ nat k"
  by (simp add: power_int_def)

lemma bitlen_rat:
  assumes "0 < a"
  shows "(2::rat) powi (bitlen a - 1) \<le> of_int a \<and> (of_int a :: rat) < 2 powi (bitlen a)"
proof -
  from assms have p: "1 \<le> bitlen a" by (auto simp: bitlen_alt_def)
  note b = bitlen_bounds [OF assms]
  have "(of_int (2 ^ nat (bitlen a - 1)) :: rat) \<le> of_int a"
    using b by (simp only: of_int_le_iff)
  moreover have "(of_int a :: rat) < of_int (2 ^ nat (bitlen a))"
    using b by (simp only: of_int_less_iff)
  ultimately show ?thesis using p by (simp add: two_powi_nat)
qed

lemma expo_bounds:
  assumes "0 < x"
  shows "2 powi (expo x) \<le> x \<and> x < 2 powi (expo x + 1)"
proof -
  obtain a b where q: "quotient_of x = (a, b)" by (cases "quotient_of x")
  have b: "0 < b" using q by (rule quotient_of_denom_pos)
  have x: "x = of_int a / of_int b" using q by (rule quotient_of_div)
  have a: "0 < a" using assms b x by (simp add: zero_less_divide_iff)
  define k where "k = bitlen a - bitlen b"
  note ba = bitlen_rat [OF a] and bb = bitlen_rat [OF b]
  have bpos: "(0::rat) < of_int b" using b by simp
  have "x < 2 powi (bitlen a) / 2 powi (bitlen b - 1)"
    unfolding x using ba bb a two_powi_pos [of "bitlen b - 1"]
    by (intro frac_less) simp_all
  then have up: "x < 2 powi (k + 1)"
    by (simp add: k_def power_int_diff [symmetric] algebra_simps)
  have "2 powi (bitlen a - 1) / 2 powi (bitlen b) < x"
    unfolding x using ba bb bpos two_powi_pos [of "bitlen a - 1"]
    by (intro frac_less2) simp_all
  then have lo: "2 powi (k - 1) < x"
    by (simp add: k_def power_int_diff [symmetric] algebra_simps)
  have e: "expo x = (if 2 powi k \<le> x then k else k - 1)"
    by (simp add: expo_def q k_def Let_def)
  show ?thesis using up lo unfolding e by auto
qed

lemma expo_mono:
  assumes "0 < x" "x \<le> y"
  shows "expo x \<le> expo y"
proof -
  have "2 powi (expo x) \<le> x" using expo_bounds [OF assms(1)] by simp
  also have "x \<le> y" by fact
  also have "y < 2 powi (expo y + 1)" using expo_bounds [of y] assms by simp
  finally have "expo x < expo y + 1" by (rule two_powi_less)
  then show ?thesis by simp
qed

lemma roundEven_ge: "of_int n \<le> q \<Longrightarrow> n \<le> roundEven q"
proof -
  assume "of_int n \<le> q"
  then have "n \<le> \<lfloor>q\<rfloor>" by (simp add: le_floor_iff)
  then show ?thesis by (simp add: roundEven_def Let_def)
qed

lemma roundEven_le: "q \<le> of_int n \<Longrightarrow> roundEven q \<le> n"
proof (cases "q = of_int n")
  case True
  then show ?thesis by (simp add: roundEven_def Let_def)
next
  case False
  assume "q \<le> of_int n"
  then have "q < of_int n" using False by simp
  then have "\<lfloor>q\<rfloor> < n" by (simp add: floor_less_iff)
  then show ?thesis by (simp add: roundEven_def Let_def)
qed

lemma roundEven_mono:
  assumes "q \<le> q'"
  shows "roundEven q \<le> roundEven q'"
proof (cases "\<lfloor>q\<rfloor> = \<lfloor>q'\<rfloor>")
  case True
  then show ?thesis using assms by (auto simp: roundEven_def Let_def)
next
  case False
  then have "\<lfloor>q\<rfloor> + 1 \<le> \<lfloor>q'\<rfloor>" using floor_mono [OF assms] by simp
  moreover have "roundEven q \<le> \<lfloor>q\<rfloor> + 1"
    by (rule roundEven_le) linarith
  moreover have "\<lfloor>q'\<rfloor> \<le> roundEven q'"
    by (rule roundEven_ge) simp
  ultimately show ?thesis by linarith
qed


lemma ulp_pos: "0 < ulp x"
  by (simp add: ulp_def two_powi_pos)

lemma ulp_abs: "ulp (- x) = ulp x"
  by (simp add: ulp_def)

lemma toDouble_pos: "0 < x \<Longrightarrow> toDouble x = of_int (roundEven (x / ulp x)) * ulp x"
  by (simp add: toDouble_def)

lemma toDouble_minus: "toDouble (- x) = - toDouble x"
  by (simp add: toDouble_def ulp_abs sgn_minus)

lemma toDouble_nonneg: "0 \<le> x \<Longrightarrow> 0 \<le> toDouble x"
proof (cases "x = 0")
  case True
  then show ?thesis by (simp add: toDouble_def)
next
  case False
  assume "0 \<le> x"
  then have x: "0 < x" using False by simp
  have "0 \<le> x / ulp x" using x ulp_pos [of x] by simp
  then have "0 \<le> roundEven (x / ulp x)" by (intro roundEven_ge) simp
  then show ?thesis using ulp_pos [of x] by (simp add: toDouble_pos [OF x])
qed

lemma toDouble_pos_mono:
  assumes "0 < x" "x \<le> y"
  shows "toDouble x \<le> toDouble y"
proof -
  have y: "0 < y" using assms by simp
  define ex where "ex = max (expo x) (- 1022)"
  define ey where "ey = max (expo y) (- 1022)"
  have ux: "ulp x = 2 powi (ex - 52)" using assms(1) by (simp add: ulp_def ex_def)
  have uy: "ulp y = 2 powi (ey - 52)" using y by (simp add: ulp_def ey_def)
  have le: "ex \<le> ey" using expo_mono [OF assms] by (simp add: ex_def ey_def)
  show ?thesis
  proof (cases "ex = ey")
    case True
    then have u: "ulp y = ulp x" by (simp add: ux uy)
    have "x / ulp x \<le> y / ulp x" using assms(2) ulp_pos [of x] by (simp add: divide_right_mono)
    then have "roundEven (x / ulp x) \<le> roundEven (y / ulp x)" by (rule roundEven_mono)
    then have "(of_int (roundEven (x / ulp x)) :: rat) \<le> of_int (roundEven (y / ulp x))"
      by simp
    then have "of_int (roundEven (x / ulp x)) * ulp x \<le> of_int (roundEven (y / ulp x)) * ulp x"
      using ulp_pos [of x] by (simp add: mult_right_mono)
    then show ?thesis by (simp add: toDouble_pos [OF assms(1)] toDouble_pos [OF y] u)
  next
    case False
    then have lt: "ex + 1 \<le> ey" using le by simp
    then have ey: "ey = expo y" by (simp add: ey_def ex_def max_def split: if_splits)
    have "x < 2 powi (expo x + 1)" using expo_bounds [OF assms(1)] by simp
    also have "\<dots> \<le> 2 powi (ex + 1)" by (rule two_powi_mono) (simp add: ex_def)
    also have "\<dots> = of_int (2 ^ 53) * ulp x"
      by (simp add: ux power_int_diff power_int_add)
    finally have "x / ulp x \<le> of_int (2 ^ 53)"
      using ulp_pos [of x] by (simp add: pos_divide_le_eq)
    then have "roundEven (x / ulp x) \<le> 2 ^ 53" by (rule roundEven_le)
    then have "(of_int (roundEven (x / ulp x)) :: rat) \<le> of_int (2 ^ 53)"
      by (simp only: of_int_le_iff)
    then have "toDouble x \<le> of_int (2 ^ 53) * ulp x"
      using ulp_pos [of x] by (simp add: toDouble_pos [OF assms(1)] mult_right_mono)
    also have "\<dots> = 2 powi (ex + 1)"
      by (simp add: ux power_int_diff power_int_add)
    also have "\<dots> \<le> 2 powi ey" using lt by (rule two_powi_mono)
    also have "\<dots> \<le> toDouble y"
    proof -
      have "2 powi ey \<le> y" using expo_bounds [OF y] by (simp add: ey)
      moreover have "2 powi ey = of_int (2 ^ 52) * ulp y"
        by (simp add: uy power_int_diff)
      ultimately have "of_int (2 ^ 52) \<le> y / ulp y"
        using ulp_pos [of y] by (simp add: pos_le_divide_eq)
      then have "2 ^ 52 \<le> roundEven (y / ulp y)" by (rule roundEven_ge)
      then have "(of_int (2 ^ 52) :: rat) \<le> of_int (roundEven (y / ulp y))"
        by (simp only: of_int_le_iff)
      then have "of_int (2 ^ 52) * ulp y \<le> toDouble y"
        using ulp_pos [of y] by (simp add: toDouble_pos [OF y] mult_right_mono)
      then show ?thesis by (simp add: uy power_int_diff)
    qed
    finally show ?thesis .
  qed
qed

lemma toDouble_mono:
  assumes "x \<le> y"
  shows "toDouble x \<le> toDouble y"
proof -
  consider (pos) "0 < x" | (zero) "x = 0" | (neg) "x < 0" "y < 0" | (mixed) "x < 0" "0 \<le> y"
    by linarith
  then show ?thesis
  proof cases
    case pos
    then show ?thesis using assms by (rule toDouble_pos_mono)
  next
    case zero
    then show ?thesis using assms toDouble_nonneg [of y] by (simp add: toDouble_def)
  next
    case neg
    then have "toDouble (- y) \<le> toDouble (- x)" using assms by (intro toDouble_pos_mono) simp_all
    then show ?thesis by (simp add: toDouble_minus)
  next
    case mixed
    then have "0 \<le> toDouble (- x)" by (intro toDouble_nonneg) simp
    then have "toDouble x \<le> 0" by (simp add: toDouble_minus)
    then show ?thesis using toDouble_nonneg [OF mixed(2)] by simp
  qed
qed

lemma scoreOf_mono_guesses: "g \<le> g' \<Longrightarrow> scoreOf g' t \<le> scoreOf g t"
proof -
  assume "g \<le> g'"
  then have "toDouble (g * 100) \<le> toDouble (g' * 100)" by (intro toDouble_mono) simp
  then have "toDouble (1000 - toDouble (g' * 100)) \<le> toDouble (1000 - toDouble (g * 100))"
    by (intro toDouble_mono) simp
  then show ?thesis unfolding scoreOf_def by (intro toDouble_mono) simp
qed

lemma scoreOf_mono_time: "t \<le> t' \<Longrightarrow> scoreOf g t' \<le> scoreOf g t"
proof -
  assume "t \<le> t'"
  then have "toDouble (t / 10) \<le> toDouble (t' / 10)" by (intro toDouble_mono) simp
  then show ?thesis unfolding scoreOf_def by (intro toDouble_mono) simp
qed

lemma roundEven_of_int: "roundEven (of_int n) = n"
  by (simp add: roundEven_def Let_def)

text \<open>A number with a significand below 2^53 and an exponent in range is a double.\<close>

lemma toDouble_dyadic_pos:
  assumes "0 < m" "m < 2 ^ 53" "- 1074 \<le> k"
  shows "toDouble (of_int m * 2 powi k) = of_int m * 2 powi k"
proof -
  define x :: rat where "x = of_int m * 2 powi k"
  have x: "0 < x" using assms(1) by (simp add: x_def two_powi_pos)
  define e where "e = max (expo x) (- 1022)"
  have u: "ulp x = 2 powi (e - 52)" using x by (simp add: ulp_def e_def)
  have "(of_int m :: rat) < of_int (2 ^ 53)" using assms(2) by (simp only: of_int_less_iff)
  then have "x < of_int (2 ^ 53) * 2 powi k"
    unfolding x_def using two_powi_pos [of k] by (intro mult_strict_right_mono)
  also have "\<dots> = 2 powi (53 + k)" by (simp add: power_int_add)
  finally have "2 powi (expo x) < (2::rat) powi (53 + k)"
    using expo_bounds [OF x] by simp
  then have "expo x < 53 + k" by (rule two_powi_less)
  then have j: "0 \<le> k - (e - 52)" using assms(3) by (simp add: e_def)
  define j where "j = nat (k - (e - 52))"
  have "(2::rat) powi k = 2 powi (int j + (e - 52))" using j by (simp add: j_def)
  also have "\<dots> = 2 ^ j * 2 powi (e - 52)" by (simp add: power_int_add)
  finally have k: "(2::rat) powi k = 2 ^ j * 2 powi (e - 52)" .
  have "of_int (m * 2 ^ j) * ulp x = of_int m * (2 ^ j * 2 powi (e - 52))" by (simp add: u)
  also have "\<dots> = x" by (simp only: x_def k)
  finally have xu: "of_int (m * 2 ^ j) * ulp x = x" .
  have "x / ulp x = of_int (m * 2 ^ j)"
    using ulp_pos [of x] xu by (metis nonzero_mult_div_cancel_right less_irrefl)
  then have "roundEven (x / ulp x) = m * 2 ^ j" by (simp only: roundEven_of_int)
  then have "toDouble x = of_int (m * 2 ^ j) * ulp x" by (simp add: toDouble_pos [OF x])
  also have "\<dots> = x" by (rule xu)
  finally show ?thesis by (simp add: x_def)
qed

lemma toDouble_dyadic:
  assumes "\<bar>m\<bar> < 2 ^ 53" "- 1074 \<le> k"
  shows "toDouble (of_int m * 2 powi k) = of_int m * 2 powi k"
proof -
  consider "m = 0" | "0 < m" | "m < 0" by linarith
  then show ?thesis
  proof cases
    case 1
    then show ?thesis by (simp add: toDouble_def)
  next
    case 2
    then show ?thesis using assms by (intro toDouble_dyadic_pos) simp_all
  next
    case 3
    then have "toDouble (of_int (- m) * 2 powi k) = of_int (- m) * 2 powi k"
      using assms by (intro toDouble_dyadic_pos) simp_all
    then have "toDouble (- (of_int m * 2 powi k)) = - (of_int m * 2 powi k)" by simp
    then show ?thesis by (simp only: toDouble_minus neg_equal_iff_equal)
  qed
qed

lemma toDouble_int: "\<bar>m\<bar> < 2 ^ 53 \<Longrightarrow> toDouble (of_int m) = of_int m"
  using toDouble_dyadic [of m 0] by simp

lemma toDouble_32nd: "\<bar>m\<bar> < 2 ^ 53 \<Longrightarrow> toDouble (of_int m / 32) = of_int m / 32"
  using toDouble_dyadic [of m "- 5"] by (simp add: power_int_def field_simps)

lemma scoreOf_int:
  assumes "0 \<le> n" "n \<le> 10 ^ 9"
  shows "scoreOf (of_int n) t = toDouble (of_int (1000 - 100 * n) - toDouble (t / 10))"
proof -
  have e1: "(of_int n :: rat) * 100 = of_int (n * 100)" by simp
  have e2: "1000 - (of_int (n * 100) :: rat) = of_int (1000 - 100 * n)" by simp
  have "toDouble (of_int (n * 100)) = of_int (n * 100)"
    using assms by (intro toDouble_int) simp
  moreover have "toDouble (of_int (1000 - 100 * n)) = of_int (1000 - 100 * n)"
    using assms by (intro toDouble_int) simp
  ultimately show ?thesis unfolding scoreOf_def e1 by (simp only: e2)
qed

lemma tenth_bounds:
  assumes "0 \<le> m" "m \<le> 10 ^ 12"
  shows "0 \<le> toDouble (of_int m / 10) \<and> toDouble (of_int m / 10) \<le> of_int (10 ^ 11)"
proof
  show "0 \<le> toDouble (of_int m / 10)" using assms by (intro toDouble_nonneg) simp
  have "(of_int m :: rat) \<le> of_int (10 ^ 12)" using assms(2) by (simp only: of_int_le_iff)
  then have "(of_int m :: rat) / 10 \<le> of_int (10 ^ 11)" by simp
  then have "toDouble (of_int m / 10) \<le> toDouble (of_int (10 ^ 11))" by (rule toDouble_mono)
  also have "\<dots> = of_int (10 ^ 11)" by (intro toDouble_int) simp
  finally show "toDouble (of_int m / 10) \<le> of_int (10 ^ 11)" .
qed

lemma scoreOf_strict_guesses:
  assumes "0 \<le> n" "n < n'" "n' \<le> 10 ^ 9" "0 \<le> m" "m \<le> 10 ^ 12"
  shows "scoreOf (of_int n') (of_int m) < scoreOf (of_int n) (of_int m)"
proof -
  define a where "a = toDouble (of_int m / 10)"
  define X :: rat where "X = of_int (1000 - 100 * n)"
  define X' :: rat where "X' = of_int (1000 - 100 * n')"
  define c where "c = \<lceil>X' - a\<rceil>"
  have a: "0 \<le> a" "a \<le> 100000000000" using tenth_bounds [OF assms(4,5)] by (simp_all add: a_def)
  have "100 * n' \<ge> 100 * n + 100" using assms(2) by simp
  then have "1000 - 100 * n' + 100 \<le> 1000 - 100 * n" by simp
  then have "(of_int (1000 - 100 * n' + 100) :: rat) \<le> of_int (1000 - 100 * n)"
    by (simp only: of_int_le_iff)
  then have d: "X' + 100 \<le> X" by (simp add: X_def X'_def)
  have "- 100000000000 \<le> 1000 - 100 * n'" "1000 - 100 * n' \<le> 1000" using assms by simp_all
  then have "(of_int (- 100000000000) :: rat) \<le> of_int (1000 - 100 * n')"
    "(of_int (1000 - 100 * n') :: rat) \<le> of_int 1000"
    by (simp_all only: of_int_le_iff)
  then have x: "- 100000000000 \<le> X'" "X' \<le> 1000" by (simp_all add: X'_def)
  have c: "X' - a \<le> of_int c" "of_int c < X' - a + 1"
    unfolding c_def by linarith+
  have "(of_int (- (2 ^ 53)) :: rat) < of_int c" and "(of_int c :: rat) < of_int (2 ^ 53 - 1)"
    using c a x by simp_all
  then have b: "- (2 ^ 53) < c" "c < 2 ^ 53 - 1" by (simp_all only: of_int_less_iff)
  have "toDouble (X' - a) \<le> toDouble (of_int c)" using c(1) by (rule toDouble_mono)
  also have "\<dots> = of_int c" using b by (intro toDouble_int) simp
  also have "\<dots> < of_int (c + 1)" by simp
  also have "\<dots> = toDouble (of_int (c + 1))" using b by (intro toDouble_int [symmetric]) simp
  also have "\<dots> \<le> toDouble (X - a)" using c(2) d by (intro toDouble_mono) simp
  finally show ?thesis
    using assms by (simp add: scoreOf_int X_def X'_def a_def)
qed

lemma scoreOf_strict_time:
  assumes "0 \<le> n" "n \<le> 10 ^ 9" "0 \<le> m" "m < m'" "m' \<le> 10 ^ 12"
  shows "scoreOf (of_int n) (of_int m') < scoreOf (of_int n) (of_int m)"
proof -
  define a where "a = toDouble (of_int m / 10)"
  define a' where "a' = toDouble (of_int m' / 10)"
  define x where "x = 1000 - 100 * n"
  define d where "d = \<lceil>(of_int m :: rat) * 32 / 10\<rceil>"
  have x: "- 100000000000 \<le> x" "x \<le> 1000" using assms by (simp_all add: x_def)
  have "(0::rat) \<le> of_int m" "(of_int m :: rat) \<le> of_int (10 ^ 12)"
    using assms by (simp_all only: of_int_le_iff of_int_0_le_iff)
  then have m: "(0::rat) \<le> of_int m" "(of_int m :: rat) \<le> 1000000000000" by simp_all
  have "m + 1 \<le> m'" using assms(4) by simp
  then have "(of_int (m + 1) :: rat) \<le> of_int m'" by (simp only: of_int_le_iff)
  then have m': "(of_int m :: rat) + 1 \<le> of_int m'" by simp
  have d: "(of_int m :: rat) * 32 / 10 \<le> of_int d" "of_int d < (of_int m :: rat) * 32 / 10 + 1"
    unfolding d_def by linarith+
  have "(of_int 0 :: rat) \<le> of_int d" "(of_int d :: rat) < of_int (2 ^ 52)"
    using d m by simp_all
  then have b: "0 \<le> d" "d < 2 ^ 52" by (simp_all only: of_int_le_iff of_int_less_iff)
  have "of_int m / 10 \<le> (of_int d :: rat) / 32" using d(1) by simp
  then have "a \<le> toDouble (of_int d / 32)" unfolding a_def by (rule toDouble_mono)
  also have "\<dots> = of_int d / 32" using b by (intro toDouble_32nd) simp
  finally have a: "a \<le> of_int d / 32" .
  have "(of_int (d + 1) :: rat) / 32 \<le> of_int m' / 10" using d(2) m' by simp
  then have "toDouble (of_int (d + 1) / 32) \<le> a'" unfolding a'_def by (rule toDouble_mono)
  moreover have "toDouble (of_int (d + 1) / 32) = of_int (d + 1) / 32"
    using b by (intro toDouble_32nd) simp
  ultimately have a': "of_int (d + 1) / 32 \<le> a'" by simp
  have e1: "(of_int x :: rat) - of_int (d + 1) / 32 = of_int (32 * x - (d + 1)) / 32"
    by (simp add: field_simps)
  have e2: "(of_int x :: rat) - of_int d / 32 = of_int (32 * x - d) / 32"
    by (simp add: field_simps)
  have "toDouble (of_int x - a') \<le> toDouble (of_int x - of_int (d + 1) / 32)"
    using a' by (intro toDouble_mono) simp
  also have "\<dots> = of_int x - of_int (d + 1) / 32"
    unfolding e1 using b x by (intro toDouble_32nd) simp
  also have "\<dots> < of_int x - of_int d / 32" by simp
  also have "\<dots> = toDouble (of_int x - of_int d / 32)"
    unfolding e2 using b x by (intro toDouble_32nd [symmetric]) simp
  also have "\<dots> \<le> toDouble (of_int x - a)" using a by (intro toDouble_mono) simp
  finally show ?thesis
    using assms by (simp add: scoreOf_int x_def a_def a'_def)
qed

lemma scoreOf_negative:
  assumes "0 \<le> n" "n \<le> 10 ^ 9" "0 \<le> m" "m \<le> 10 ^ 12" "1000 < 100 * (of_int n :: rat) + of_int m / 10"
  shows "scoreOf (of_int n) (of_int m) < 0"
proof -
  define a where "a = toDouble (of_int m / 10)"
  define x where "x = 1000 - 100 * n"
  have x: "- 100000000000 \<le> x" "x \<le> 1000" using assms(1,2) by (simp_all add: x_def)
  have "(of_int x :: rat) < of_int m / 10" using assms(5) by (simp add: x_def)
  then have "(of_int (10 * x) :: rat) < of_int m" by simp
  then have "10 * x < m" by (simp only: of_int_less_iff)
  then have "10 * x + 1 \<le> m" by simp
  then have "(of_int (10 * x + 1) :: rat) \<le> of_int m" by (simp only: of_int_le_iff)
  then have "(of_int (32 * x + 1) :: rat) / 32 \<le> of_int m / 10" by simp
  then have "toDouble (of_int (32 * x + 1) / 32) \<le> a" unfolding a_def by (rule toDouble_mono)
  moreover have "toDouble (of_int (32 * x + 1) / 32) = of_int (32 * x + 1) / 32"
    using x by (intro toDouble_32nd) simp
  ultimately have "of_int x - a \<le> of_int (- 1) / 32" by simp
  then have "toDouble (of_int x - a) \<le> toDouble (of_int (- 1) / 32)" by (rule toDouble_mono)
  also have "\<dots> = of_int (- 1) / 32" by (intro toDouble_32nd) simp
  also have "\<dots> < 0" by simp
  finally show ?thesis using assms by (simp add: scoreOf_int x_def a_def)
qed

lemma scoreOf_exact:
  assumes "0 \<le> n" "n \<le> 10 ^ 9" "0 \<le> q" "q \<le> 10 ^ 11"
  shows "scoreOf (of_int n) (of_int (10 * q)) = of_int (1000 - 100 * n - q)"
proof -
  have "toDouble (of_int q) = of_int q" using assms by (intro toDouble_int) simp
  moreover have "toDouble (of_int (1000 - 100 * n - q)) = of_int (1000 - 100 * n - q)"
    using assms by (intro toDouble_int) simp
  ultimately show ?thesis using assms by (simp add: scoreOf_int)
qed

lemma toDouble_two_powi: "- 1074 \<le> k \<Longrightarrow> toDouble (2 powi k) = 2 powi k"
  using toDouble_dyadic [of 1 k] by simp

lemma toDouble_abs_le:
  assumes "\<bar>x\<bar> \<le> 2 powi k" "- 1074 \<le> k"
  shows "\<bar>toDouble x\<bar> \<le> 2 powi k"
proof -
  have "toDouble x \<le> toDouble (2 powi k)" using assms(1) by (intro toDouble_mono) simp
  moreover have "toDouble (- (2 powi k)) \<le> toDouble x" using assms(1) by (intro toDouble_mono) simp
  ultimately show ?thesis by (simp add: toDouble_minus toDouble_two_powi [OF assms(2)] abs_le_iff)
qed

lemma scoreOf_finite:
  assumes "\<bar>g\<bar> \<le> 2 ^ 1000" "\<bar>t\<bar> \<le> 2 ^ 1000"
  shows "\<bar>toDouble (g * 100)\<bar> < 2 ^ 1024 \<and> \<bar>toDouble (1000 - toDouble (g * 100))\<bar> < 2 ^ 1024 \<and>
         \<bar>toDouble (t / 10)\<bar> < 2 ^ 1024 \<and> \<bar>scoreOf g t\<bar> < 2 ^ 1024"
proof -
  define B :: rat where "B = 2 powi 1000"
  have B: "B = 2 ^ 1000" by (simp add: B_def power_int_def)
  have p: "2 powi 1007 = 128 * B" "2 powi 1008 = 256 * B" "2 powi 1009 = 512 * B"
    "(2::rat) ^ 1024 = 16777216 * B"
    by (simp_all add: B power_int_def)
  have "(2::rat) powi 10 \<le> 2 powi 1000" by (rule two_powi_mono) simp
  then have b: "1024 \<le> B" by (simp add: B_def power_int_def del: power_int_numeral)
  have g: "\<bar>g\<bar> \<le> B" and t: "\<bar>t\<bar> \<le> B" using assms by (simp_all only: B)
  have "\<bar>g * 100\<bar> \<le> 128 * B" using g by (simp add: abs_mult)
  then have "\<bar>g * 100\<bar> \<le> 2 powi 1007" unfolding p .
  then have "\<bar>toDouble (g * 100)\<bar> \<le> 2 powi 1007" by (rule toDouble_abs_le) simp
  then have 1: "\<bar>toDouble (g * 100)\<bar> \<le> 128 * B" unfolding p .
  then have "\<bar>1000 - toDouble (g * 100)\<bar> \<le> 256 * B" using b by linarith
  then have "\<bar>1000 - toDouble (g * 100)\<bar> \<le> 2 powi 1008" unfolding p .
  then have "\<bar>toDouble (1000 - toDouble (g * 100))\<bar> \<le> 2 powi 1008"
    by (rule toDouble_abs_le) simp
  then have 2: "\<bar>toDouble (1000 - toDouble (g * 100))\<bar> \<le> 256 * B" unfolding p .
  have "\<bar>t / 10\<bar> \<le> B" using t by simp
  then have "\<bar>t / 10\<bar> \<le> 2 powi 1000" unfolding B_def .
  then have "\<bar>toDouble (t / 10)\<bar> \<le> 2 powi 1000" by (rule toDouble_abs_le) simp
  then have 3: "\<bar>toDouble (t / 10)\<bar> \<le> B" unfolding B_def .
  have "\<bar>toDouble (1000 - toDouble (g * 100)) - toDouble (t / 10)\<bar> \<le> 512 * B"
    using 2 3 b by linarith
  then have "\<bar>toDouble (1000 - toDouble (g * 100)) - toDouble (t / 10)\<bar> \<le> 2 powi 1009"
    unfolding p .
  then have "\<bar>scoreOf g t\<bar> \<le> 2 powi 1009" unfolding scoreOf_def by (rule toDouble_abs_le) simp
  then have 4: "\<bar>scoreOf g t\<bar> \<le> 512 * B" unfolding p .
  show ?thesis unfolding p using 1 2 3 4 b by (intro conjI) linarith+
qed

section \<open>Leaderboards, scores and averages\<close>

lemma descending_sortByScore: "descending (sortByScore es)"
proof -
  have "sorted (map (\<lambda>e. - score e) (sort_key (\<lambda>e. - score e) es))"
    by (rule sorted_sort_key)
  then show ?thesis
    by (simp add: descending_def sortByScore_def sorted_map)
qed

lemma descending_take: "descending es \<Longrightarrow> descending (take n es)"
  by (simp add: descending_def sorted_wrt_take)

lemma set_sortByScore: "set (sortByScore es) = set es"
  by (simp add: sortByScore_def)

lemma updateLeaderboards_boards:
  "leaderboards (updateLeaderboards store d p w g t) =
     (if w then (leaderboards store)((d, Daily) \<mapsto> take 100 (sortByScore (pushed store d p g t)))
      else leaderboards store)"
  by (simp add: updateLeaderboards_def pushed_def Let_def)

lemma updateLeaderboards_ranked:
  "boardsRanked store \<Longrightarrow> boardsRanked (updateLeaderboards store d p w g t)"
  by (auto simp: boardsRanked_def updateLeaderboards_boards descending_take descending_sortByScore)

lemma updateLeaderboards_scored:
  "boardsScored store \<Longrightarrow> boardsScored (updateLeaderboards store d p w g t)"
proof -
  assume a: "boardsScored store"
  have "\<forall>e \<in> set (pushed store d p g t). score e = scoreOf (entryGuesses e) (entryTime e)"
    using a by (cases "leaderboards store (d, Daily)") (auto simp: boardsScored_def pushed_def)
  then have "\<forall>e \<in> set (take 100 (sortByScore (pushed store d p g t))).
      score e = scoreOf (entryGuesses e) (entryTime e)"
    using set_take_subset [of 100 "sortByScore (pushed store d p g t)"]
    by (auto simp: set_sortByScore)
  then show ?thesis
    using a unfolding boardsScored_def updateLeaderboards_boards
    by (simp split: if_splits)
qed

text \<open>The leaderboards after a submission.\<close>

lemma submit_leaderboards:
  "leaderboards (snd (submit yd store req)) =
     (if statusCode (fst (submit yd store req)) = 200 \<and> reqWon req
      then (leaderboards store)((reqDate req, Daily) \<mapsto>
             take 100 (sortByScore (pushed store (reqDate req)
               (playerOf store (reqPlayerId req)) (reqGuesses req) (reqTime req))))
      else leaderboards store)"
proof (cases "hasPlayed store req")
  case True
  then show ?thesis by (simp add: submit_played)
next
  case np: False
  show ?thesis
  proof (cases "updateStats yd (stats (playerOf store (reqPlayerId req))) req")
    case None
    then show ?thesis using np by (simp add: submit_range_error)
  next
    case st: (Some st)
    show ?thesis
    proof (cases "playerId (playerOf store (reqPlayerId req)) = []")
      case True
      then show ?thesis using np st by (simp add: submit_invalid)
    next
      case ok: False
      show ?thesis
      proof (cases "puzzles store (reqDate req)")
        case None
        show ?thesis by (simp add: submit_no_puzzle [OF np st ok None])
      next
        case (Some puzzle)
        show ?thesis
          by (simp add: submit_puzzle [OF np st ok Some] Let_def updateLeaderboards_boards pushed_def)
      qed
    qed
  qed
qed

lemma submit_ranked: "boardsRanked store \<Longrightarrow> boardsRanked (snd (submit yd store req))"
  unfolding boardsRanked_def submit_leaderboards
  by (auto simp: descending_take descending_sortByScore)

lemma submitAll_ranked: "boardsRanked store \<Longrightarrow> boardsRanked (submitAll yd store reqs)"
  by (induction reqs arbitrary: store) (simp_all add: submit_ranked)

lemma submit_scored: "boardsScored store \<Longrightarrow> boardsScored (snd (submit yd store req))"
proof -
  assume a: "boardsScored store"
  let ?es = "pushed store (reqDate req) (playerOf store (reqPlayerId req)) (reqGuesses req) (reqTime req)"
  have "\<forall>e \<in> set ?es. score e = scoreOf (entryGuesses e) (entryTime e)"
    using a by (cases "leaderboards store (reqDate req, Daily)") (auto simp: boardsScored_def pushed_def)
  then have "\<forall>e \<in> set (take 100 (sortByScore ?es)).
      score e = scoreOf (entryGuesses e) (entryTime e)"
    using set_take_subset [of 100 "sortByScore ?es"]
    by (auto simp: set_sortByScore)
  then show ?thesis
    using a unfolding boardsScored_def submit_leaderboards
    by (simp split: if_splits)
qed

lemma submitAll_scored: "boardsScored store \<Longrightarrow> boardsScored (submitAll yd store reqs)"
  by (induction reqs arbitrary: store) (simp_all add: submit_scored)

text \<open>
  Claim C4.  The board that a call of updateLeaderboards for a win writes is in descending
  order of score and has at most 100 entries, whatever the board was before.  Hence every
  board of a store reached from the empty store by submissions is in descending order
  and has at most 100 entries, and the same holds from any store whose boards are so.
  A lost game changes no board: updateLeaderboards returns at once, and the
  leaderboards after the submission are those before it.
\<close>

theorem leaderboard_ranked:
  "(\<exists>es. leaderboards (updateLeaderboards store d p True g t) (d, Daily) = Some es \<and>
         descending es \<and> length es \<le> 100) \<and>
   boardsRanked (submitAll yd emptyStore reqs) \<and>
   (boardsRanked store \<longrightarrow>
      boardsRanked (snd (submit yd store req)) \<and> boardsRanked (submitAll yd store reqs)) \<and>
   updateLeaderboards store d p False g t = store \<and>
   (\<not> reqWon req \<longrightarrow> leaderboards (snd (submit yd store req)) = leaderboards store)"
proof (intro conjI impI)
  show "\<exists>es. leaderboards (updateLeaderboards store d p True g t) (d, Daily) = Some es \<and>
         descending es \<and> length es \<le> 100"
    by (simp add: updateLeaderboards_boards descending_take descending_sortByScore)
  have "boardsRanked emptyStore" by (simp add: boardsRanked_def emptyStore_def)
  then show "boardsRanked (submitAll yd emptyStore reqs)" by (rule submitAll_ranked)
  show "updateLeaderboards store d p False g t = store" by (simp add: updateLeaderboards_def)
next
  assume "boardsRanked store"
  then show "boardsRanked (snd (submit yd store req))" "boardsRanked (submitAll yd store reqs)"
    by (simp_all add: submit_ranked submitAll_ranked)
next
  assume "\<not> reqWon req"
  then show "leaderboards (snd (submit yd store req)) = leaderboards store"
    by (simp add: submit_leaderboards)
qed


theorem leaderboard_ranked_witness:
  "boardsRanked newYearStore \<and>
   map score (the (leaderboards
     (submitAll utcYesterday newYearStore
        [play ''ann'' ''2024-01-01'' True 3 45000, play ''bob'' ''2024-01-01'' True 2 30000,
         play ''cy'' ''2024-01-01'' True 4 20000])
     (utf16 ''2024-01-01'', Daily))) = [- 1400, - 2200, - 3800] \<and>
   boardsRanked (submitAll utcYesterday newYearStore
        [play ''ann'' ''2024-01-01'' True 3 45000, play ''bob'' ''2024-01-01'' True 2 30000,
         play ''cy'' ''2024-01-01'' True 4 20000]) \<and>
   \<not> reqWon (play ''dan'' ''2024-01-01'' False 6 90000) \<and>
   leaderboards (snd (submit utcYesterday newYearStore (play ''dan'' ''2024-01-01'' False 6 90000))) =
     leaderboards newYearStore"
proof -
  let ?reqs = "[play ''ann'' ''2024-01-01'' True 3 45000, play ''bob'' ''2024-01-01'' True 2 30000,
         play ''cy'' ''2024-01-01'' True 4 20000]"
  let ?dan = "play ''dan'' ''2024-01-01'' False 6 90000"
  have r: "boardsRanked newYearStore"
    by (simp add: boardsRanked_def newYearStore_def puzzleToday_def emptyStore_def Let_def)
  have l: "\<not> reqWon ?dan" by (simp add: play_def)
  have e: "map score (the (leaderboards (submitAll utcYesterday newYearStore ?reqs)
     (utf16 ''2024-01-01'', Daily))) = [- 1400, - 2200, - 3800]"
    by code_simp
  show ?thesis
    using leaderboard_ranked [of newYearStore "utf16 ''2024-01-01''" "newPlayer (utf16 ''ann'')" 3 45000
        utcYesterday ?reqs ?dan] r l e
    by blast
qed

text \<open>The puzzles after a submission.\<close>

lemma updatePuzzle_player [simp]:
  "updatePuzzle puzzle (p\<lparr>stats := st, games := gs\<rparr>) req = updatePuzzle puzzle p req"
  by (simp add: updatePuzzle_def Let_def)










text \<open>
  Claim C8, as stated, fails: the score is not strictly decreasing on all numbers, and
  it is not the exact value of \<open>1000 - guesses*100 - time/10\<close>.  The numbers \<open>2^-42\<close>
  and \<open>10^20\<close> are doubles.  A win in 3 guesses scores 700 after 0 ms and also after
  \<open>2^-42\<close> ms, a tenth of which is less than half the distance between 700 and the
  next double.  A win after \<open>10^20\<close> ms scores \<open>-10^19\<close> in 1 guess and also in 2
  guesses.  A win in 3 guesses after 45001 ms does not score the rational -3800.1,
  which is no double.
\<close>

theorem score_strict_counterexample:
  "toDouble (1 / 2 ^ 42) = 1 / 2 ^ 42 \<and> (0::rat) < 1 / 2 ^ 42 \<and>
   scoreOf 3 0 = 700 \<and> scoreOf 3 (1 / 2 ^ 42) = 700 \<and>
   toDouble (10 ^ 20) = 10 ^ 20 \<and> (1::rat) < 2 \<and>
   scoreOf 1 (10 ^ 20) = - (10 ^ 19) \<and> scoreOf 2 (10 ^ 20) = - (10 ^ 19) \<and>
   scoreOf 3 45001 \<noteq> 1000 - 3 * 100 - 45001 / 10"
  by (intro conjI; code_simp)

text \<open>
  Claim C8, amended.  The score is \<open>1000 - guesses*100 - time/10\<close> computed in double
  arithmetic, each operation rounded to the nearest double, and nothing is clamped.
  For guesses and a time of magnitude at most \<open>2^1000\<close> no operation of line 330
  reaches the magnitude \<open>2^1024\<close>, so none overflows, and a winning submission that is
  answered with a success leaves as the daily board of its date the first 100, by
  descending score, of the old entries and one new entry with that score.  Submissions
  keep the boards such that every entry carries the score of the guesses and the time
  stored with it.  The score never increases when the guesses or the time increase.
  For a whole number of guesses from 0 to \<open>10^9\<close> and a time of a whole number of
  milliseconds from 0 to \<open>10^12\<close>, the score is strictly decreasing in the guesses and
  in the time, it is negative as soon as \<open>guesses*100 + time/10\<close> exceeds 1000, and it
  is exactly \<open>1000 - guesses*100 - time/10\<close> when the time is a multiple of 10 ms.
\<close>

theorem score_formula:
  "scoreOf g t = toDouble (toDouble (1000 - toDouble (g * 100)) - toDouble (t / 10)) \<and>
   (\<bar>g\<bar> \<le> 2 ^ 1000 \<and> \<bar>t\<bar> \<le> 2 ^ 1000 \<longrightarrow>
      \<bar>toDouble (g * 100)\<bar> < 2 ^ 1024 \<and> \<bar>toDouble (1000 - toDouble (g * 100))\<bar> < 2 ^ 1024 \<and>
      \<bar>toDouble (t / 10)\<bar> < 2 ^ 1024 \<and> \<bar>scoreOf g t\<bar> < 2 ^ 1024) \<and>
   (reqWon req \<and> statusCode (fst (submit yd store req)) = 200 \<and>
    \<bar>reqGuesses req\<bar> \<le> 2 ^ 1000 \<and> \<bar>reqTime req\<bar> \<le> 2 ^ 1000 \<longrightarrow>
      leaderboards (snd (submit yd store req)) (reqDate req, Daily) =
        Some (take 100 (sortByScore
          ((case leaderboards store (reqDate req, Daily) of Some es \<Rightarrow> es | None \<Rightarrow> []) @
           [\<lparr>entryPlayerId = playerId (playerOf store (reqPlayerId req)),
             entryUsername =
               orElse (username (playerOf store (reqPlayerId req))) (utf16 ''Anonymous''),
             score = scoreOf (reqGuesses req) (reqTime req),
             entryTime = reqTime req, entryGuesses = reqGuesses req\<rparr>])))) \<and>
   (boardsScored store \<longrightarrow>
      boardsScored (snd (submit yd store req)) \<and> boardsScored (submitAll yd store reqs)) \<and>
   (g \<le> g' \<longrightarrow> scoreOf g' t \<le> scoreOf g t) \<and>
   (t \<le> t' \<longrightarrow> scoreOf g t' \<le> scoreOf g t) \<and>
   (0 \<le> n \<and> n \<le> 10 ^ 9 \<and> 0 \<le> m \<and> m \<le> 10 ^ 12 \<longrightarrow>
      (n < n' \<and> n' \<le> 10 ^ 9 \<longrightarrow>
         scoreOf (of_int n') (of_int m) < scoreOf (of_int n) (of_int m)) \<and>
      (m < m' \<and> m' \<le> 10 ^ 12 \<longrightarrow>
         scoreOf (of_int n) (of_int m') < scoreOf (of_int n) (of_int m)) \<and>
      (1000 < 100 * (of_int n :: rat) + of_int m / 10 \<longrightarrow>
         scoreOf (of_int n) (of_int m) < 0) \<and>
      (m = 10 * q \<longrightarrow>
         scoreOf (of_int n) (of_int m) = 1000 - 100 * of_int n - of_int m / 10))"
proof (intro conjI impI)
  show "scoreOf g t = toDouble (toDouble (1000 - toDouble (g * 100)) - toDouble (t / 10))"
    by (simp add: scoreOf_def)
next
  assume a: "\<bar>g\<bar> \<le> 2 ^ 1000 \<and> \<bar>t\<bar> \<le> 2 ^ 1000"
  note f = scoreOf_finite [OF a [THEN conjunct1] a [THEN conjunct2]]
  show "\<bar>toDouble (g * 100)\<bar> < 2 ^ 1024" by (rule f [THEN conjunct1])
  show "\<bar>toDouble (1000 - toDouble (g * 100))\<bar> < 2 ^ 1024"
    by (rule f [THEN conjunct2, THEN conjunct1])
  show "\<bar>toDouble (t / 10)\<bar> < 2 ^ 1024"
    by (rule f [THEN conjunct2, THEN conjunct2, THEN conjunct1])
  show "\<bar>scoreOf g t\<bar> < 2 ^ 1024"
    by (rule f [THEN conjunct2, THEN conjunct2, THEN conjunct2])
next
  assume "reqWon req \<and> statusCode (fst (submit yd store req)) = 200 \<and>
    \<bar>reqGuesses req\<bar> \<le> 2 ^ 1000 \<and> \<bar>reqTime req\<bar> \<le> 2 ^ 1000"
  then have "reqWon req \<and> statusCode (fst (submit yd store req)) = 200" by (elim conjE) (rule conjI)
  then show "leaderboards (snd (submit yd store req)) (reqDate req, Daily) =
        Some (take 100 (sortByScore
          ((case leaderboards store (reqDate req, Daily) of Some es \<Rightarrow> es | None \<Rightarrow> []) @
           [\<lparr>entryPlayerId = playerId (playerOf store (reqPlayerId req)),
             entryUsername =
               orElse (username (playerOf store (reqPlayerId req))) (utf16 ''Anonymous''),
             score = scoreOf (reqGuesses req) (reqTime req),
             entryTime = reqTime req, entryGuesses = reqGuesses req\<rparr>])))"
    by (simp add: submit_leaderboards pushed_def)
next
  assume "boardsScored store"
  then show "boardsScored (snd (submit yd store req))" "boardsScored (submitAll yd store reqs)"
    by (simp_all add: submit_scored submitAll_scored)
next
  assume "g \<le> g'"
  then show "scoreOf g' t \<le> scoreOf g t" by (rule scoreOf_mono_guesses)
next
  assume "t \<le> t'"
  then show "scoreOf g t' \<le> scoreOf g t" by (rule scoreOf_mono_time)
next
  assume r: "0 \<le> n \<and> n \<le> 10 ^ 9 \<and> 0 \<le> m \<and> m \<le> 10 ^ 12" and s: "n < n' \<and> n' \<le> 10 ^ 9"
  show "scoreOf (of_int n') (of_int m) < scoreOf (of_int n) (of_int m)"
    using r s by (intro scoreOf_strict_guesses) simp_all
next
  assume r: "0 \<le> n \<and> n \<le> 10 ^ 9 \<and> 0 \<le> m \<and> m \<le> 10 ^ 12" and s: "m < m' \<and> m' \<le> 10 ^ 12"
  show "scoreOf (of_int n) (of_int m') < scoreOf (of_int n) (of_int m)"
    using r s by (intro scoreOf_strict_time) simp_all
next
  assume r: "0 \<le> n \<and> n \<le> 10 ^ 9 \<and> 0 \<le> m \<and> m \<le> 10 ^ 12"
    and s: "1000 < 100 * (of_int n :: rat) + of_int m / 10"
  show "scoreOf (of_int n) (of_int m) < 0"
    using r s by (intro scoreOf_negative) simp_all
next
  assume r: "0 \<le> n \<and> n \<le> 10 ^ 9 \<and> 0 \<le> m \<and> m \<le> 10 ^ 12" and s: "m = 10 * q"
  have "scoreOf (of_int n) (of_int (10 * q)) = of_int (1000 - 100 * n - q)"
    using r s by (intro scoreOf_exact) simp_all
  then show "scoreOf (of_int n) (of_int m) = 1000 - 100 * of_int n - of_int m / 10"
    by (simp add: s)
qed

theorem score_formula_witness:
  "\<bar>3::rat\<bar> \<le> 2 ^ 1000 \<and> \<bar>45000::rat\<bar> \<le> 2 ^ 1000 \<and> \<bar>scoreOf 3 45000\<bar> < 2 ^ 1024 \<and>
   reqWon (play ''ann'' ''2024-01-01'' True 3 45000) \<and>
   statusCode (fst (submit utcYesterday newYearStore (play ''ann'' ''2024-01-01'' True 3 45000))) = 200 \<and>
   leaderboards (snd (submit utcYesterday newYearStore (play ''ann'' ''2024-01-01'' True 3 45000)))
       (utf16 ''2024-01-01'', Daily) =
     Some [\<lparr>entryPlayerId = utf16 ''ann'', entryUsername = utf16 ''Anonymous'',
            score = - 3800, entryTime = 45000, entryGuesses = 3\<rparr>] \<and>
   boardsScored newYearStore \<and>
   boardsScored (submitAll utcYesterday newYearStore
     [play ''ann'' ''2024-01-01'' True 3 45000, play ''bob'' ''2024-01-01'' True 2 30000]) \<and>
   (3::rat) \<le> 4 \<and> scoreOf 4 45000 \<le> scoreOf 3 45000 \<and>
   (45000::rat) \<le> 45010 \<and> scoreOf 3 45010 \<le> scoreOf 3 45000 \<and>
   (3::int) < 4 \<and> scoreOf 4 45000 < scoreOf 3 45000 \<and>
   (45000::int) < 45001 \<and> scoreOf 3 45001 < scoreOf 3 45000 \<and>
   (1000::rat) < 100 * 3 + 45000 / 10 \<and> scoreOf 3 45000 < 0 \<and>
   (45000::int) = 10 * 4500 \<and> scoreOf 3 45000 = - 3800"
proof -
  let ?ann = "play ''ann'' ''2024-01-01'' True 3 45000"
  let ?bob = "play ''bob'' ''2024-01-01'' True 2 30000"
  have w: "reqWon ?ann" "reqGuesses ?ann = 3" "reqTime ?ann = 45000" by (simp_all add: play_def)
  have s: "statusCode (fst (submit utcYesterday newYearStore ?ann)) = 200" by code_simp
  have b: "boardsScored newYearStore"
    by (simp add: boardsScored_def newYearStore_def puzzleToday_def emptyStore_def Let_def)
  have l: "leaderboards newYearStore (utf16 ''2024-01-01'', Daily) = None"
    by (simp add: newYearStore_def puzzleToday_def emptyStore_def Let_def)
  have p: "playerOf newYearStore (utf16 ''ann'') = newPlayer (utf16 ''ann'')"
    by (simp add: playerOf_def newYearStore_def puzzleToday_def emptyStore_def Let_def)
  have o: "orElse None (utf16 ''Anonymous'') = utf16 ''Anonymous''" by (simp add: orElse_def)
  have r: "\<bar>3::rat\<bar> \<le> 2 ^ 1000" "\<bar>45000::rat\<bar> \<le> 2 ^ 1000" by simp_all
  note t = score_formula [of 3 45000 ?ann utcYesterday newYearStore "[?ann, ?bob]" 4 45010
      3 45000 4 45001 4500]
  have v: "scoreOf 3 45000 = - 3800" using t by simp
  have e: "leaderboards (snd (submit utcYesterday newYearStore ?ann)) (utf16 ''2024-01-01'', Daily) =
     Some [\<lparr>entryPlayerId = utf16 ''ann'', entryUsername = utf16 ''Anonymous'',
            score = - 3800, entryTime = 45000, entryGuesses = 3\<rparr>]"
    using t w s r v by (simp add: l p o play_def newPlayer_def sortByScore_def)
  have f: "\<bar>scoreOf 3 45000\<bar> < 2 ^ 1024" using t r by blast
  have k: "boardsScored (submitAll utcYesterday newYearStore [?ann, ?bob])" using t b by blast
  have m1: "scoreOf 4 45000 \<le> scoreOf 3 45000" "scoreOf 3 45010 \<le> scoreOf 3 45000"
    using t by simp_all
  have m2: "scoreOf 4 45000 < scoreOf 3 45000" "scoreOf 3 45001 < scoreOf 3 45000"
    "scoreOf 3 45000 < 0"
    using t by simp_all
  show ?thesis using w s b e v r f k m1 m2 by simp
qed



section \<open>The day before a date\<close>

lemma div_step:
  fixes a n :: int
  assumes "0 < n"
  shows "(a + 1) div n = a div n + (if n dvd a + 1 then 1 else 0)"
proof -
  have r: "0 \<le> a mod n" "a mod n < n" using assms by simp_all
  show ?thesis
  proof (cases "a mod n = n - 1")
    case True
    have "a + 1 = n * (a div n) + (a mod n + 1)" by simp
    also have "a mod n + 1 = n" using True by simp
    finally have e: "a + 1 = n * (a div n + 1) + 0" by (simp add: algebra_simps)
    then have "(a + 1) div n = a div n + 1"
      using assms by (intro int_div_pos_eq [of "a + 1" n "a div n + 1" 0]) simp_all
    moreover have "n dvd a + 1" using e by (metis add.right_neutral dvd_triv_left)
    ultimately show ?thesis by simp
  next
    case False
    then have lt: "a mod n + 1 < n" using r by simp
    have e: "a + 1 = n * (a div n) + (a mod n + 1)" by simp
    have "(a + 1) div n = a div n"
      using e r lt by (intro int_div_pos_eq [of "a + 1" n "a div n" "a mod n + 1"]) simp_all
    moreover have "(a + 1) mod n = a mod n + 1"
      using e r lt by (intro int_mod_pos_eq [of "a + 1" n "a div n" "a mod n + 1"]) simp_all
    then have "\<not> n dvd a + 1" using r by (simp add: dvd_eq_mod_eq_0)
    ultimately show ?thesis by simp
  qed
qed

lemma DayFromYear_Suc: "DayFromYear (y + 1) = DayFromYear y + DaysInYear y"
proof -
  have a: "(y + 1 - 1969) div 4 = (y - 1969) div 4 + (if 4 dvd y then 1 else 0)"
  proof -
    have "(4 dvd (y - 1969) + 1) = (4 dvd y)" by presburger
    then show ?thesis using div_step [of 4 "y - 1969"] by (simp add: algebra_simps)
  qed
  have b: "(y + 1 - 1901) div 100 = (y - 1901) div 100 + (if 100 dvd y then 1 else 0)"
  proof -
    have "(100 dvd (y - 1901) + 1) = (100 dvd y)" by presburger
    then show ?thesis using div_step [of 100 "y - 1901"] by (simp add: algebra_simps)
  qed
  have c: "(y + 1 - 1601) div 400 = (y - 1601) div 400 + (if 400 dvd y then 1 else 0)"
  proof -
    have "(400 dvd (y - 1601) + 1) = (400 dvd y)" by presburger
    then show ?thesis using div_step [of 400 "y - 1601"] by (simp add: algebra_simps)
  qed
  define p4 where "p4 = (4 dvd y)"
  define p100 where "p100 = (100 dvd y)"
  define p400 where "p400 = (400 dvd y)"
  define ia :: int where "ia = (if p4 then 1 else 0)"
  define ib :: int where "ib = (if p100 then 1 else 0)"
  define ic :: int where "ic = (if p400 then 1 else 0)"
  have i: "p100 \<Longrightarrow> p4" unfolding p100_def p4_def by (rule dvd_trans [of 4 100]) simp_all
  have j: "p400 \<Longrightarrow> p100" unfolding p100_def p400_def by (rule dvd_trans [of 100 400]) simp_all
  have m: "(y mod 4 \<noteq> 0) = (\<not> p4)" "(y mod 100 \<noteq> 0) = (\<not> p100)"
    "(y mod 400 \<noteq> 0) = (\<not> p400)"
    unfolding p4_def p100_def p400_def by (simp_all only: dvd_eq_mod_eq_0)
  have "(if \<not> p4 then 365 else if \<not> p100 then 366 else if \<not> p400 then 365 else 366) =
      (365::int) + ia - ib + ic"
    unfolding ia_def ib_def ic_def using i j by (cases p4; cases p100; cases p400) simp_all
  then have k: "DaysInYear y = 365 + ia - ib + ic"
    unfolding DaysInYear_def m .
  define A where "A = (y - 1969) div 4"
  define B where "B = (y - 1901) div 100"
  define C where "C = (y - 1601) div 400"
  have "DayFromYear (y + 1) = 365 * (y + 1 - 1970) + (A + ia) - (B + ib) + (C + ic)"
    unfolding DayFromYear_def a b c A_def B_def C_def ia_def ib_def ic_def p4_def p100_def p400_def ..
  also have "\<dots> = (365 * (y - 1970) + A - B + C) + (365 + ia - ib + ic)" by simp
  also have "\<dots> = DayFromYear y + DaysInYear y"
    unfolding k DayFromYear_def A_def B_def C_def ..
  finally show ?thesis .
qed


lemma div_bounds:
  fixes a :: int
  shows "4 * (a div 4) \<le> a" "a \<le> 4 * (a div 4) + 3"
    and "100 * (a div 100) \<le> a" "a \<le> 100 * (a div 100) + 99"
    and "400 * (a div 400) \<le> a" "a \<le> 400 * (a div 400) + 399"
  by presburger+

lemma DayFromYear_bounds:
  "146097 * (y - 1970) - 506 \<le> 400 * DayFromYear y \<and>
   400 * DayFromYear y \<le> 146097 * (y - 1970) + 589"
proof -
  define a where "a = (y - 1969) div 4"
  define b where "b = (y - 1901) div 100"
  define c where "c = (y - 1601) div 400"
  have "4 * a \<le> y - 1969" "y - 1969 \<le> 4 * a + 3"
    "100 * b \<le> y - 1901" "y - 1901 \<le> 100 * b + 99"
    "400 * c \<le> y - 1601" "y - 1601 \<le> 400 * c + 399"
    unfolding a_def b_def c_def by (rule div_bounds)+
  moreover have "DayFromYear y = 365 * (y - 1970) + a - b + c"
    by (simp add: DayFromYear_def a_def b_def c_def)
  ultimately show ?thesis by simp
qed

lemma DayFromYear_mono: "y < y' \<Longrightarrow> DayFromYear y < DayFromYear y'"
proof -
  assume "y < y'"
  then have "146097 * (y - 1970) + 589 < 146097 * (y' - 1970) - 506" by simp
  then have "400 * DayFromYear y < 400 * DayFromYear y'"
    using DayFromYear_bounds [of y, THEN conjunct2] DayFromYear_bounds [of y', THEN conjunct1]
    by (rule_tac le_less_trans [OF _ less_le_trans])
  then show ?thesis by simp
qed

lemma YearFromDay_correct:
  "DayFromYear (YearFromDay day) \<le> day \<and> day < DayFromYear (YearFromDay day + 1)"
proof -
  define y where "y = 1970 + (day * 400) div 146097"
  define q where "q = (day * 400) div 146097"
  define r where "r = (day * 400) mod 146097"
  have "146097 * q + r = day * 400" "0 \<le> r" "r < 146097"
    unfolding q_def r_def by simp_all
  moreover have "y - 1970 = q" by (simp add: y_def q_def)
  ultimately have e: "146097 * (y - 1970) \<le> day * 400"
    "day * 400 < 146097 * (y - 1970) + 146097"
    by simp_all
  define lo where "lo = DayFromYear (y - 1)"
  define hi where "hi = DayFromYear (y + 2)"
  have "400 * lo \<le> 146097 * (y - 1 - 1970) + 589"
    unfolding lo_def by (rule DayFromYear_bounds [THEN conjunct2])
  then have lo: "lo \<le> day" using e by simp
  have "146097 * (y + 2 - 1970) - 506 \<le> 400 * hi"
    unfolding hi_def by (rule DayFromYear_bounds [THEN conjunct1])
  then have hi: "day < hi" using e by simp
  have y1: "y - 1 + 1 = y" "y + 1 + 1 = y + 2" by simp_all
  consider (below) "day < DayFromYear y"
    | (above) "DayFromYear y \<le> day" "DayFromYear (y + 1) \<le> day"
    | (here) "DayFromYear y \<le> day" "day < DayFromYear (y + 1)"
    by linarith
  then show ?thesis
  proof cases
    case below
    then have "YearFromDay day = y - 1"
      by (simp add: YearFromDay_def y_def [symmetric] Let_def)
    then have "DayFromYear (YearFromDay day) = DayFromYear (y - 1)"
      "DayFromYear (YearFromDay day + 1) = DayFromYear y" by simp_all
    then show ?thesis using lo below unfolding lo_def by simp
  next
    case above
    then have "YearFromDay day = y + 1"
      by (simp add: YearFromDay_def y_def [symmetric] Let_def)
    then have "DayFromYear (YearFromDay day) = DayFromYear (y + 1)"
      "DayFromYear (YearFromDay day + 1) = DayFromYear (y + 2)" by (simp_all add: y1)
    then show ?thesis using hi above unfolding hi_def by simp
  next
    case here
    then have "YearFromDay day = y"
      by (simp add: YearFromDay_def y_def [symmetric] Let_def)
    then show ?thesis using here by simp
  qed
qed

lemma YearFromDay_unique:
  assumes "DayFromYear y \<le> day" "day < DayFromYear (y + 1)"
  shows "YearFromDay day = y"
proof -
  define z where "z = YearFromDay day"
  have c: "DayFromYear z \<le> day" "day < DayFromYear (z + 1)"
    unfolding z_def using YearFromDay_correct [of day] by simp_all
  have "\<not> z < y"
  proof
    assume "z < y"
    then have "z + 1 = y \<or> z + 1 < y" by auto
    then have "DayFromYear (z + 1) \<le> DayFromYear y"
      using DayFromYear_mono [of "z + 1" y] by auto
    with c(2) assms(1) show False by simp
  qed
  moreover have "\<not> y < z"
  proof
    assume "y < z"
    then have "y + 1 = z \<or> y + 1 < z" by auto
    then have "DayFromYear (y + 1) \<le> DayFromYear z"
      using DayFromYear_mono [of "y + 1" z] by auto
    with c(1) assms(2) show False by simp
  qed
  ultimately show ?thesis unfolding z_def by simp
qed


lemma month_cases:
  fixes m :: int
  assumes "1 \<le> m" "m \<le> 12"
  obtains "m = 1" | "m = 2" | "m = 3" | "m = 4" | "m = 5" | "m = 6"
    | "m = 7" | "m = 8" | "m = 9" | "m = 10" | "m = 11" | "m = 12"
proof -
  have "m = 1 \<or> m = 2 \<or> m = 3 \<or> m = 4 \<or> m = 5 \<or> m = 6 \<or>
      m = 7 \<or> m = 8 \<or> m = 9 \<or> m = 10 \<or> m = 11 \<or> m = 12"
    using assms by arith
  then show ?thesis using that by blast
qed

lemma DaysInYear_cases: "DaysInYear y = 365 \<or> DaysInYear y = 366"
  by (simp add: DaysInYear_def)

lemma MakeDay_month: "0 \<le> mn \<Longrightarrow> mn < 12 \<Longrightarrow>
  MakeDay y mn dt = DayFromYear y + monthStart y mn + dt - 1"
  by (simp add: MakeDay_def Let_def)

text \<open>The day of a date that exists, read back.\<close>

lemma civil_of_MakeDay:
  assumes "validDate y m d"
  shows "YearFromDay (MakeDay y (m - 1) d) = y \<and> MonthFromDay (MakeDay y (m - 1) d) = m - 1 \<and>
    DateFromDay (MakeDay y (m - 1) d) = d"
proof -
  define n where "n = MakeDay y (m - 1) d"
  define w where "w = monthStart y (m - 1) + d - 1"
  define l :: int where "l = (if DaysInYear y = 366 then 1 else 0)"
  from assms have m: "1 \<le> m" "m \<le> 12" and d: "1 \<le> d" "d \<le> DaysInMonth y m"
    by (simp_all add: validDate_def)
  have n: "n = DayFromYear y + w"
    unfolding n_def w_def using m by (simp add: MakeDay_month)
  have diy: "DaysInYear y = 365 + l" using DaysInYear_cases [of y] by (auto simp: l_def)
  have l01: "l = 0 \<or> l = 1" by (simp add: l_def)
  have dim: "DaysInMonth y k = (if k = 2 then 28 + l
      else if k = 4 \<or> k = 6 \<or> k = 9 \<or> k = 11 then 30 else 31)" for k
    by (simp add: DaysInMonth_def l_def)
  have ms: "monthStart y k =
      [0, 31, 59, 90, 120, 151, 181, 212, 243, 273, 304, 334] ! nat k +
      (if 2 \<le> k then l else 0)" for k
    by (simp add: monthStart_def l_def)
  have w: "0 \<le> w \<and> w < 365 + l"
    using m by (rule month_cases) (use d l01 in \<open>auto simp: w_def ms dim\<close>)
  have "YearFromDay n = y"
    by (rule YearFromDay_unique) (use w n in \<open>simp_all add: DayFromYear_Suc diy\<close>)
  then have yr: "YearFromDay n = y" .
  have dw: "DayWithinYear n = w" unfolding DayWithinYear_def yr by (simp add: n)
  have il: "InLeapYear n = l" by (simp add: InLeapYear_def yr l_def)
  have mo: "MonthFromDay n = m - 1"
    unfolding MonthFromDay_def dw il Let_def
    using m by (rule month_cases) (use d l01 in \<open>auto simp: w_def ms dim\<close>)
  have "DateFromDay n = d"
    unfolding DateFromDay_def dw il mo Let_def
    using m by (rule month_cases) (use d l01 in \<open>auto simp: w_def ms dim\<close>)
  then show ?thesis using yr mo unfolding n_def by simp
qed


text \<open>The calendar day before a date that exists: it exists, and its day is one less.\<close>

lemma precedingDay_day:
  assumes "validDate y m d" and "precedingDay (y, m, d) = (y', m', d')"
  shows "validDate y' m' d' \<and> MakeDay y' (m' - 1) d' = MakeDay y (m - 1) d - 1"
proof -
  define l :: int where "l = (if DaysInYear y = 366 then 1 else 0)"
  from assms have m: "1 \<le> m" "m \<le> 12" and d: "1 \<le> d" "d \<le> DaysInMonth y m"
    by (simp_all add: validDate_def)
  have l01: "l = 0 \<or> l = 1" by (simp add: l_def)
  have dim: "DaysInMonth y k = (if k = 2 then 28 + l
      else if k = 4 \<or> k = 6 \<or> k = 9 \<or> k = 11 then 30 else 31)" for k
    by (simp add: DaysInMonth_def l_def)
  have ms: "monthStart y k =
      [0, 31, 59, 90, 120, 151, 181, 212, 243, 273, 304, 334] ! nat k +
      (if 2 \<le> k then l else 0)" for k
    by (simp add: monthStart_def l_def)
  consider (day) "1 < d" | (month) "d = 1" "1 < m" | (year) "d = 1" "m = 1"
    using m d by linarith
  then show ?thesis
  proof cases
    case day
    then have "y' = y" "m' = m" "d' = d - 1" using assms(2) by (auto simp: precedingDay_def)
    then show ?thesis using m d day by (simp add: validDate_def MakeDay_month)
  next
    case month
    then have e: "y' = y" "m' = m - 1" "d' = DaysInMonth y (m - 1)"
      using assms(2) by (auto simp: precedingDay_def)
    have v: "validDate y (m - 1) (DaysInMonth y (m - 1))"
      using m month l01 by (auto simp: validDate_def dim)
    have "monthStart y (m - 1 - 1) + DaysInMonth y (m - 1) = monthStart y (m - 1)"
      using m(1,2) by (rule month_cases) (use month l01 in \<open>auto simp: ms dim\<close>)
    then have "MakeDay y (m - 1 - 1) (DaysInMonth y (m - 1)) = MakeDay y (m - 1) d - 1"
      using m month by (simp add: MakeDay_month)
    then show ?thesis using v e by simp
  next
    case year
    then have e: "y' = y - 1" "m' = 12" "d' = 31"
      using assms(2) by (auto simp: precedingDay_def)
    have v: "validDate (y - 1) 12 31" by (simp add: validDate_def DaysInMonth_def)
    have "DaysInYear (y - 1) = 365 \<or> DaysInYear (y - 1) = 366" by (rule DaysInYear_cases)
    then have "monthStart (y - 1) 11 + 31 = DaysInYear (y - 1)"
      by (auto simp: monthStart_def)
    moreover have "DayFromYear y = DayFromYear (y - 1) + DaysInYear (y - 1)"
      using DayFromYear_Suc [of "y - 1"] by simp
    moreover have "monthStart y 0 = 0" by (simp add: monthStart_def)
    ultimately have "MakeDay (y - 1) (12 - 1) 31 = MakeDay y (m - 1) d - 1"
      using year by (simp add: MakeDay_month)
    then show ?thesis using v e by simp
  qed
qed

lemma parseISODate_valid: "parseISODate s = Some (y, m, d) \<Longrightarrow> validDate y m d"
  by (auto simp: parseISODate_def validDate_def split: if_splits option.splits)

text \<open>
  What lines 193 to 195 compute for the date-only string of a day that exists: the
  string of the calendar day before.
\<close>

lemma utcYesterday_preceding:
  assumes "parseISODate s = Some ymd"
  shows "utcYesterday s = Some (isoDateString (precedingDay ymd))"
proof -
  obtain y m d where ymd: "ymd = (y, m, d)" by (cases ymd)
  obtain y' m' d' where p: "precedingDay (y, m, d) = (y', m', d')"
    by (cases "precedingDay (y, m, d)")
  have v: "validDate y m d" using assms ymd by (simp add: parseISODate_valid)
  note c = civil_of_MakeDay [OF v]
  note q = precedingDay_day [OF v p]
  note c' = civil_of_MakeDay [OF q [THEN conjunct1]]
  define n where "n = MakeDay y (m - 1) d"
  have m: "0 \<le> m - 1" "m - 1 < 12" using v by (simp_all add: validDate_def)
  have "MakeDay (YearFromDay n) (MonthFromDay n) (DateFromDay n - 1) = n - 1"
    using c m unfolding n_def by (simp add: MakeDay_month)
  also have "n - 1 = MakeDay y' (m' - 1) d'" using q unfolding n_def by simp
  finally have "toISODate (MakeDay (YearFromDay n) (MonthFromDay n) (DateFromDay n - 1)) =
      isoDateString (y', m', d')"
    using c' by (simp add: toISODate_def)
  moreover have "dateParse s = Some n" using assms ymd by (simp add: dateParse_def n_def)
  ultimately show ?thesis by (simp add: utcYesterday_def Let_def ymd p)
qed

section \<open>The generator and the store\<close>



section \<open>Streaks\<close>

lemma updateStats_won:
  assumes "reqWon req" and "yd (reqDate req) = Some y"
  shows "\<exists>st'. updateStats yd st req = Some st' \<and>
      currentStreak st' = (if lastPlayDate st = Some y then currentStreak st + 1 else 1) \<and>
      maxStreak st' = max (maxStreak st) (currentStreak st') \<and>
      lastPlayDate st' = Some (reqDate req)"
  using assms by (simp add: updateStats_def Let_def)

lemma updateStats_lost:
  assumes "\<not> reqWon req"
  shows "\<exists>st'. updateStats yd st req = Some st' \<and> currentStreak st' = 0 \<and>
      maxStreak st' = maxStreak st \<and> lastPlayDate st' = Some (reqDate req)"
  using assms by (simp add: updateStats_def Let_def)

lemma updateStats_max:
  "updateStats yd st req = Some st' \<Longrightarrow>
   maxStreak st' = max (maxStreak st) (currentStreak st')"
  by (cases "reqWon req"; cases "yd (reqDate req)")
     (auto simp: updateStats_def Let_def split: if_splits)

text \<open>The stats the handler saves for the submitting player.\<close>

lemma submit_stats:
  assumes "\<not> hasPlayed store req"
    and "updateStats yd (stats (playerOf store (reqPlayerId req))) req = Some st"
    and "playerId (playerOf store (reqPlayerId req)) \<noteq> []"
  shows "stats (playerOf (snd (submit yd store req)) (reqPlayerId req)) = st"
proof (cases rule: submit_cases [of store req yd])
  case played
  then show ?thesis using assms by simp
next
  case range
  then show ?thesis using assms by simp
next
  case invalid
  then show ?thesis using assms by simp
next
  case (saved st')
  then show ?thesis using assms by (simp add: playerOf_def)
qed

text \<open>One submission keeps maxStreak the maximum of what it was and the current streak.\<close>

lemma submit_max:
  assumes "currentStreak (stats (playerOf store pid)) \<le> maxStreak (stats (playerOf store pid))"
  shows "maxStreak (stats (playerOf (snd (submit yd store req)) pid)) =
      max (maxStreak (stats (playerOf store pid)))
        (currentStreak (stats (playerOf (snd (submit yd store req)) pid)))"
proof (cases rule: submit_cases [of store req yd])
  case played
  then show ?thesis using assms by simp
next
  case range
  then show ?thesis using assms by simp
next
  case invalid
  then show ?thesis using assms by simp
next
  case (saved st)
  show ?thesis
  proof (cases "pid = reqPlayerId req")
    case True
    then show ?thesis using saved updateStats_max [OF saved(2)] by (simp add: playerOf_def)
  next
    case False
    then have "playerOf (snd (submit yd store req)) pid = playerOf store pid"
      using saved by (simp add: playerOf_def)
    then show ?thesis using assms by simp
  qed
qed

lemma submitAll_max:
  assumes "currentStreak (stats (playerOf store pid)) \<le> maxStreak (stats (playerOf store pid))"
  shows "maxStreak (stats (playerOf (submitAll yd store reqs) pid)) =
      fold max (streakHistory yd store pid reqs) (maxStreak (stats (playerOf store pid)))"
  using assms
proof (induction reqs arbitrary: store)
  case Nil
  then show ?case by simp
next
  case (Cons req reqs)
  let ?s = "snd (submit yd store req)"
  note m = submit_max [OF Cons.prems, of yd req]
  then have "currentStreak (stats (playerOf ?s pid)) \<le> maxStreak (stats (playerOf ?s pid))"
    by simp
  from Cons.IH [OF this] show ?case using m by (simp add: max.commute)
qed

text \<open>
  The streak in a process whose local time zone is UTC.  For a submission that gets as
  far as saving the player (no game of the date yet, a playerId that is not empty): a
  win whose date is the date-only string of a day that exists makes currentStreak the
  old currentStreak + 1 exactly when the stored lastPlayDate is the string of the
  calendar day immediately preceding that day, and 1 otherwise; a loss, in any zone,
  makes it 0 and leaves maxStreak alone; in both cases maxStreak becomes the maximum of
  the old maxStreak and the new currentStreak, and lastPlayDate becomes the submitted
  date.  Over any sequence of submissions, in any zone, maxStreak is the running
  maximum of currentStreak.
\<close>

lemma streak_update:
  "(\<not> hasPlayed store req \<and> playerId (playerOf store (reqPlayerId req)) \<noteq> [] \<and>
    reqWon req \<and> parseISODate (reqDate req) = Some ymd \<longrightarrow>
      currentStreak (stats (playerOf (snd (submit utcYesterday store req)) (reqPlayerId req))) =
        (if lastPlayDate (stats (playerOf store (reqPlayerId req))) =
              Some (isoDateString (precedingDay ymd))
         then currentStreak (stats (playerOf store (reqPlayerId req))) + 1 else 1) \<and>
      maxStreak (stats (playerOf (snd (submit utcYesterday store req)) (reqPlayerId req))) =
        max (maxStreak (stats (playerOf store (reqPlayerId req))))
          (currentStreak (stats (playerOf (snd (submit utcYesterday store req)) (reqPlayerId req)))) \<and>
      lastPlayDate (stats (playerOf (snd (submit utcYesterday store req)) (reqPlayerId req))) =
        Some (reqDate req)) \<and>
   (\<not> hasPlayed store req \<and> playerId (playerOf store (reqPlayerId req)) \<noteq> [] \<and>
    \<not> reqWon req \<longrightarrow>
      currentStreak (stats (playerOf (snd (submit yd store req)) (reqPlayerId req))) = 0 \<and>
      maxStreak (stats (playerOf (snd (submit yd store req)) (reqPlayerId req))) =
        maxStreak (stats (playerOf store (reqPlayerId req))) \<and>
      lastPlayDate (stats (playerOf (snd (submit yd store req)) (reqPlayerId req))) =
        Some (reqDate req)) \<and>
   (currentStreak (stats (playerOf store pid)) \<le> maxStreak (stats (playerOf store pid)) \<longrightarrow>
      maxStreak (stats (playerOf (submitAll yd store reqs) pid)) =
        fold max (streakHistory yd store pid reqs) (maxStreak (stats (playerOf store pid)))) \<and>
   (players store pid = None \<longrightarrow>
      maxStreak (stats (playerOf (submitAll yd store reqs) pid)) =
        Max (set (0 # streakHistory yd store pid reqs)))"
proof (intro conjI impI)
  assume a: "\<not> hasPlayed store req \<and> playerId (playerOf store (reqPlayerId req)) \<noteq> [] \<and>
    reqWon req \<and> parseISODate (reqDate req) = Some ymd"
  let ?before = "stats (playerOf store (reqPlayerId req))"
  let ?after = "stats (playerOf (snd (submit utcYesterday store req)) (reqPlayerId req))"
  have y: "utcYesterday (reqDate req) = Some (isoDateString (precedingDay ymd))"
    using a by (simp add: utcYesterday_preceding)
  from updateStats_won [of req utcYesterday _ ?before, OF _ y] a obtain st where
    st: "updateStats utcYesterday ?before req = Some st"
      "currentStreak st =
         (if lastPlayDate ?before = Some (isoDateString (precedingDay ymd))
          then currentStreak ?before + 1 else 1)"
      "maxStreak st = max (maxStreak ?before) (currentStreak st)"
      "lastPlayDate st = Some (reqDate req)"
    by blast
  have e: "?after = st" using a st(1) by (simp add: submit_stats)
  show "currentStreak ?after =
        (if lastPlayDate ?before = Some (isoDateString (precedingDay ymd))
         then currentStreak ?before + 1 else 1)"
    unfolding e by (rule st(2))
  show "maxStreak ?after = max (maxStreak ?before) (currentStreak ?after)"
    unfolding e by (rule st(3))
  show "lastPlayDate ?after = Some (reqDate req)"
    unfolding e by (rule st(4))
next
  assume a: "\<not> hasPlayed store req \<and> playerId (playerOf store (reqPlayerId req)) \<noteq> [] \<and>
    \<not> reqWon req"
  let ?before = "stats (playerOf store (reqPlayerId req))"
  let ?after = "stats (playerOf (snd (submit yd store req)) (reqPlayerId req))"
  from updateStats_lost [of req yd ?before] a obtain st where
    st: "updateStats yd ?before req = Some st" "currentStreak st = 0"
      "maxStreak st = maxStreak ?before" "lastPlayDate st = Some (reqDate req)"
    by blast
  have e: "?after = st" using a st(1) by (simp add: submit_stats)
  show "currentStreak ?after = 0" unfolding e by (rule st(2))
  show "maxStreak ?after = maxStreak ?before" unfolding e by (rule st(3))
  show "lastPlayDate ?after = Some (reqDate req)" unfolding e by (rule st(4))
next
  assume "currentStreak (stats (playerOf store pid)) \<le> maxStreak (stats (playerOf store pid))"
  then show "maxStreak (stats (playerOf (submitAll yd store reqs) pid)) =
        fold max (streakHistory yd store pid reqs) (maxStreak (stats (playerOf store pid)))"
    by (rule submitAll_max)
next
  assume "players store pid = None"
  then have n: "stats (playerOf store pid) = stats (newPlayer pid)" by (simp add: playerOf_def)
  then have "currentStreak (stats (playerOf store pid)) \<le> maxStreak (stats (playerOf store pid))"
    by (simp add: newPlayer_def)
  from submitAll_max [OF this, of yd reqs]
  have "maxStreak (stats (playerOf (submitAll yd store reqs) pid)) =
        fold max (streakHistory yd store pid reqs) 0"
    unfolding n by (simp add: newPlayer_def)
  also have "\<dots> = Max (set (0 # streakHistory yd store pid reqs))"
    by (rule Max.set_eq_fold [symmetric])
  finally show "maxStreak (stats (playerOf (submitAll yd store reqs) pid)) =
        Max (set (0 # streakHistory yd store pid reqs))" .
qed


text \<open>
  The specification's example around the leap day of 2024, in UTC: wins on 28 and 29
  February, a loss on 1 March, a win after a gap on 3 March.
\<close>

lemma streak_update_example:
  "streakHistory utcYesterday leapWeekStore (utf16 ''ann'')
     [play ''ann'' ''2024-02-28'' True 3 45000, play ''ann'' ''2024-02-29'' True 4 50000,
      play ''ann'' ''2024-03-01'' False 6 90000, play ''ann'' ''2024-03-03'' True 2 30000] =
     [1, 2, 0, 1] \<and>
   maxStreak (stats (playerOf
     (submitAll utcYesterday leapWeekStore
        [play ''ann'' ''2024-02-28'' True 3 45000, play ''ann'' ''2024-02-29'' True 4 50000,
         play ''ann'' ''2024-03-01'' False 6 90000, play ''ann'' ''2024-03-03'' True 2 30000])
     (utf16 ''ann''))) = 2"
  by code_simp

text \<open>In the zone UTC the three lines compute what \<open>utcYesterday\<close> does.\<close>

lemma yesterdayString_utc: "yesterdayString utcZone s = utcYesterday s"
proof (cases "dateParse s")
  case None
  then show ?thesis by (simp add: yesterdayString_def utcYesterday_def)
next
  case (Some day)
  have d: "Day (day * msPerDay) = day" "TimeWithinDay (day * msPerDay) = 0"
    by (simp_all add: Day_def TimeWithinDay_def msPerDay_def)
  have e: "Day (n * msPerDay) = n" for n
    by (simp add: Day_def msPerDay_def)
  show ?thesis
    by (simp add: yesterdayString_def utcYesterday_def Some utcZone_def Let_def d e)
qed

text \<open>
  Claim C3 is what the handler is written to do, and the handler does it in a process
  whose zone is UTC, but not in every process.  Lines 193 to 195 take the day before in
  local time (\<open>getDate\<close>, \<open>setDate\<close>) and print it in UTC (\<open>toISOString\<close>).  In central
  European time, for the date 2024-10-28, the local time one day back lies before the
  end of summer time, 25 hours earlier, and the string computed is 2024-10-26, not the
  preceding calendar day 2024-10-27.  A player who won on 2024-10-27 and wins on
  2024-10-28 has lastPlayDate 2024-10-27 and gets currentStreak 1, where the claim, and
  the same code in UTC, give 2.
\<close>

theorem streak_zone_divergence:
  "yesterdayString berlin2024 (utf16 ''2024-10-28'') = Some (utf16 ''2024-10-26'') \<and>
   yesterdayString utcZone (utf16 ''2024-10-28'') = Some (utf16 ''2024-10-27'') \<and>
   parseISODate (utf16 ''2024-10-28'') = Some (2024, 10, 28) \<and>
   isoDateString (precedingDay (2024, 10, 28)) = utf16 ''2024-10-27'' \<and>
   lastPlayDate (stats (playerOf
     (snd (submit (yesterdayString berlin2024) octoberStore
        (play ''ann'' ''2024-10-27'' True 3 45000)))
     (utf16 ''ann''))) = Some (utf16 ''2024-10-27'') \<and>
   streakHistory (yesterdayString berlin2024) octoberStore (utf16 ''ann'')
     [play ''ann'' ''2024-10-27'' True 3 45000, play ''ann'' ''2024-10-28'' True 4 50000] =
     [1, 1] \<and>
   streakHistory (yesterdayString utcZone) octoberStore (utf16 ''ann'')
     [play ''ann'' ''2024-10-27'' True 3 45000, play ''ann'' ''2024-10-28'' True 4 50000] =
     [1, 2] \<and>
   statusCode (fst (submit (yesterdayString berlin2024)
     (snd (submit (yesterdayString berlin2024) octoberStore
        (play ''ann'' ''2024-10-27'' True 3 45000)))
     (play ''ann'' ''2024-10-28'' True 4 50000))) = 200"
  by (intro conjI; code_simp)

end
